theory Spec2Isabelle
  imports Complex_Main "HOL-Library.Sublist" "HOL-Library.AList" "HOL-Library.Multiset"
begin

chapter \<open>The model\<close>

section \<open>JavaScript strings\<close>

text \<open>
  Strings are \<^typ>\<open>string\<close> (lists of characters). The helpers below are the
  \<^verbatim>\<open>String.prototype\<close> methods the sources call. Case folding and white space are the
  ASCII ones: host names, header names and the identifiers compared in the sources are ASCII.
\<close>

definition toLowerChar :: "char \<Rightarrow> char" where
  "toLowerChar c =
     (case map_of (zip ''ABCDEFGHIJKLMNOPQRSTUVWXYZ'' ''abcdefghijklmnopqrstuvwxyz'') c of
        Some d \<Rightarrow> d
      | None \<Rightarrow> c)"

definition toLowerCase :: "string \<Rightarrow> string" where
  "toLowerCase s = map toLowerChar s"

definition isSpace :: "char \<Rightarrow> bool" where
  "isSpace c = (c \<in> set [CHR '' '', CHR 0x09, CHR 0x0A, CHR 0x0B, CHR 0x0C, CHR 0x0D])"

definition trimStart :: "string \<Rightarrow> string" where
  "trimStart s = dropWhile isSpace s"

definition trimEnd :: "string \<Rightarrow> string" where
  "trimEnd s = rev (dropWhile isSpace (rev s))"

definition trim :: "string \<Rightarrow> string" where
  "trim s = trimEnd (trimStart s)"

definition startsWith :: "string \<Rightarrow> string \<Rightarrow> bool" where
  "startsWith s p = (take (length p) s = p)"

definition endsWith :: "string \<Rightarrow> string \<Rightarrow> bool" where
  "endsWith s p = (length p \<le> length s \<and> drop (length s - length p) s = p)"

fun includes_str :: "string \<Rightarrow> string \<Rightarrow> bool" where
  "includes_str [] p = (p = [])"
| "includes_str (c # cs) p = (startsWith (c # cs) p \<or> includes_str cs p)"

text \<open>\<^verbatim>\<open>s.split(sep)\<close> for a one-character separator.\<close>

fun split_on :: "char \<Rightarrow> string \<Rightarrow> string list" where
  "split_on sep [] = [[]]"
| "split_on sep (c # cs) =
     (if c = sep then [] # split_on sep cs
      else (case split_on sep cs of
              [] \<Rightarrow> [[c]]
            | p # ps \<Rightarrow> (c # p) # ps))"

section \<open>URL objects\<close>

text \<open>
  A parsed \<^verbatim>\<open>URL\<close> object, with the components the sources read. \<^verbatim>\<open>protocol\<close> keeps its
  colon (\<^verbatim>\<open>https:\<close>), \<^verbatim>\<open>search\<close> its question mark, as in the runtime. The parser itself
  (\<^verbatim>\<open>new URL(...)\<close>) belongs to the runtime and is a parameter wherever it is called.
\<close>

record url =
  protocol :: string
  username :: string
  password :: string
  hostname :: string
  port :: string
  pathname :: string
  search :: string

definition url_host :: "url \<Rightarrow> string" where
  "url_host u = hostname u @ (if port u = [] then [] else CHR '':'' # port u)"

definition url_toString :: "url \<Rightarrow> string" where
  "url_toString u =
     protocol u @ ''//'' @
     (if username u = [] \<and> password u = [] then []
      else username u @ (if password u = [] then [] else CHR '':'' # password u) @ ''@'') @
     url_host u @ pathname u @ search u"

section \<open>Allowlist (security/allowlist.ts)\<close>

record allowlist_entry =
  entry_id :: string
  entry_host :: string
  allowSubdomains :: bool
  schemes :: "string list"
  enabled :: bool
  label :: "string option"

text \<open>\<^verbatim>\<open>host.trim().toLowerCase().replace(/^\.+|\.+$/g, '')\<close>\<close>

definition stripDots :: "string \<Rightarrow> string" where
  "stripDots s = rev (dropWhile (\<lambda>c. c = CHR ''.'') (rev (dropWhile (\<lambda>c. c = CHR ''.'') s)))"

definition normalizeHost :: "string \<Rightarrow> string" where
  "normalizeHost host = stripDots (toLowerCase (trim host))"

text \<open>
  \<^verbatim>\<open>AllowlistStore.match\<close>: the first entry, in list order, that is enabled, lists the
  URL's scheme, and whose host equals the URL's host name or (with \<^verbatim>\<open>allowSubdomains\<close>) is a
  dot-bounded suffix of it. \<^verbatim>\<open>url.protocol.replace(':', '')\<close> removes the first colon.
\<close>

fun removeFirstColon :: "string \<Rightarrow> string" where
  "removeFirstColon [] = []"
| "removeFirstColon (c # cs) = (if c = CHR '':'' then cs else c # removeFirstColon cs)"

fun match_entries :: "allowlist_entry list \<Rightarrow> string \<Rightarrow> string \<Rightarrow> allowlist_entry option" where
  "match_entries [] host scheme = None"
| "match_entries (entry # rest) host scheme =
     (if \<not> enabled entry then match_entries rest host scheme
      else if scheme \<notin> set (schemes entry) then match_entries rest host scheme
      else if entry_host entry = host then Some entry
      else if allowSubdomains entry \<and> endsWith host (CHR ''.'' # entry_host entry) then Some entry
      else match_entries rest host scheme)"

definition allowlist_match :: "allowlist_entry list \<Rightarrow> url \<Rightarrow> allowlist_entry option" where
  "allowlist_match entries u =
     (let host = normalizeHost (hostname u);
          scheme = removeFirstColon (protocol u)
      in match_entries entries host scheme)"

definition isAllowed :: "allowlist_entry list \<Rightarrow> url \<Rightarrow> bool" where
  "isAllowed entries u = (allowlist_match entries u \<noteq> None)"

section \<open>SSRF guard (security/ssrf-guard.ts)\<close>

text \<open>
  Errors are JavaScript \<^verbatim>\<open>Error\<close> objects; the handlers only ever read their message, so
  an error is its message and a fallible function returns \<^typ>\<open>string + 'a\<close>, \<^const>\<open>Inl\<close>
  carrying the message thrown.
\<close>

type_synonym error = string

definition isDigit :: "char \<Rightarrow> bool" where
  "isDigit c = (c \<in> set ''0123456789'')"

definition digitVal :: "char \<Rightarrow> nat" where
  "digitVal c = of_char c - 48"

text \<open>
  \<^verbatim>\<open>Number(octet)\<close> on a string of decimal digits. \<^verbatim>\<open>ipToInt\<close> is only reached behind
  \<^verbatim>\<open>net.isIP(ip) === 4\<close>, so its octets are plain decimals; the other numeric literal forms
  of \<^verbatim>\<open>Number\<close> are not modelled.
\<close>

definition decimalValue :: "string \<Rightarrow> nat" where
  "decimalValue s = foldl (\<lambda>acc c. 10 * acc + digitVal c) 0 s"

text \<open>
  The 32-bit conversions of the bitwise operators: \<^verbatim>\<open>acc << 8\<close> converts \<^verbatim>\<open>acc\<close> to a
  signed 32-bit integer, shifts, and wraps to a signed 32-bit integer again; \<^verbatim>\<open>x >>> 0\<close>
  reads \<^verbatim>\<open>x\<close> as an unsigned 32-bit integer. The addition in between is exact.
\<close>

definition toInt32 :: "int \<Rightarrow> int" where
  "toInt32 x = (x + 2 ^ 31) mod 2 ^ 32 - 2 ^ 31"

definition toUint32 :: "int \<Rightarrow> int" where
  "toUint32 x = x mod 2 ^ 32"

definition shiftLeft8 :: "int \<Rightarrow> int" where
  "shiftLeft8 x = toInt32 (toInt32 x * 2 ^ 8)"

definition ipToInt :: "string \<Rightarrow> int" where
  "ipToInt ip =
     toUint32 (foldl (\<lambda>acc octet. shiftLeft8 acc + int (decimalValue octet)) 0
                 (split_on (CHR ''.'') ip))"

definition IPV4_PRIVATE_RANGES :: "(int \<times> int) list" where
  "IPV4_PRIVATE_RANGES =
    [(ipToInt ''0.0.0.0'', ipToInt ''0.255.255.255''),
     (ipToInt ''10.0.0.0'', ipToInt ''10.255.255.255''),
     (ipToInt ''100.64.0.0'', ipToInt ''100.127.255.255''),
     (ipToInt ''127.0.0.0'', ipToInt ''127.255.255.255''),
     (ipToInt ''169.254.0.0'', ipToInt ''169.254.255.255''),
     (ipToInt ''172.16.0.0'', ipToInt ''172.31.255.255''),
     (ipToInt ''192.0.0.0'', ipToInt ''192.0.0.255''),
     (ipToInt ''192.0.2.0'', ipToInt ''192.0.2.255''),
     (ipToInt ''192.168.0.0'', ipToInt ''192.168.255.255''),
     (ipToInt ''198.18.0.0'', ipToInt ''198.19.255.255''),
     (ipToInt ''198.51.100.0'', ipToInt ''198.51.100.255''),
     (ipToInt ''203.0.113.0'', ipToInt ''203.0.113.255''),
     (ipToInt ''224.0.0.0'', ipToInt ''255.255.255.255'')]"

definition isPrivateIpv4 :: "string \<Rightarrow> bool" where
  "isPrivateIpv4 ip =
     (let v = ipToInt ip
      in list_ex (\<lambda>(start, end). v \<ge> start \<and> v \<le> end) IPV4_PRIVATE_RANGES)"

definition isBlockedIpv6 :: "string \<Rightarrow> bool" where
  "isBlockedIpv6 ip =
     (let normalized = toLowerCase ip
      in normalized = ''::1'' \<or>
         normalized = ''::'' \<or>
         startsWith normalized ''fc'' \<or>
         startsWith normalized ''fd'' \<or>
         startsWith normalized ''fe80:'' \<or>
         startsWith normalized ''::ffff:127.'' \<or>
         startsWith normalized ''::ffff:10.'' \<or>
         startsWith normalized ''::ffff:192.168.'' \<or>
         startsWith normalized ''::ffff:172.16.'' \<or>
         startsWith normalized ''::ffff:172.17.'' \<or>
         startsWith normalized ''::ffff:172.18.'' \<or>
         startsWith normalized ''::ffff:172.19.'' \<or>
         startsWith normalized ''::ffff:172.2'' \<or>
         startsWith normalized ''::ffff:169.254.'')"

text \<open>
  \<^verbatim>\<open>net.isIP\<close> of the runtime. Its IPv4 test accepts four dot-separated decimal octets
  0..255 without leading zeros and is written out; its IPv6 test is the parameter \<open>isIPv6\<close>.
\<close>

definition isV4Seg :: "string \<Rightarrow> bool" where
  "isV4Seg s =
     (s \<noteq> [] \<and> length s \<le> 3 \<and> list_all isDigit s \<and>
      (length s = 1 \<or> hd s \<noteq> CHR ''0'') \<and> decimalValue s \<le> 255)"

definition isIPv4 :: "string \<Rightarrow> bool" where
  "isIPv4 s =
     (case split_on (CHR ''.'') s of
        [a, b, c, d] \<Rightarrow> isV4Seg a \<and> isV4Seg b \<and> isV4Seg c \<and> isV4Seg d
      | _ \<Rightarrow> False)"

definition net_isIP :: "(string \<Rightarrow> bool) \<Rightarrow> string \<Rightarrow> nat" where
  "net_isIP isIPv6 s = (if isIPv4 s then 4 else if isIPv6 s then 6 else 0)"

definition assertSafeIp :: "(string \<Rightarrow> bool) \<Rightarrow> string \<Rightarrow> error + unit" where
  "assertSafeIp isIPv6 ip =
     (let family = net_isIP isIPv6 ip
      in if family = 0 then Inl ''invalid_ip''
         else if family = 4 \<and> isPrivateIpv4 ip then Inl ''ssrf_blocked''
         else if family = 6 \<and> isBlockedIpv6 ip then Inl ''ssrf_blocked''
         else Inr ())"

definition assertSafeHostname :: "(string \<Rightarrow> bool) \<Rightarrow> string \<Rightarrow> error + unit" where
  "assertSafeHostname isIPv6 hostname' =
     (let host = toLowerCase (trim hostname')
      in if host = [] then Inl ''empty_hostname''
         else if host = ''localhost'' \<or> endsWith host ''.localhost'' then Inl ''ssrf_blocked''
         else if host = ''metadata.google.internal'' then Inl ''ssrf_blocked''
         else if host = ''169.254.169.254'' then Inl ''ssrf_blocked''
         else if net_isIP isIPv6 host \<noteq> 0 then assertSafeIp isIPv6 host
         else Inr ())"

text \<open>The loop \<^verbatim>\<open>for (const answer of answers) assertSafeIp(answer.address)\<close>.\<close>

fun assertSafeAnswers :: "(string \<Rightarrow> bool) \<Rightarrow> string list \<Rightarrow> error + unit" where
  "assertSafeAnswers isIPv6 [] = Inr ()"
| "assertSafeAnswers isIPv6 (address # rest) =
     (case assertSafeIp isIPv6 address of
        Inl e \<Rightarrow> Inl e
      | Inr _ \<Rightarrow> assertSafeAnswers isIPv6 rest)"

text \<open>
  \<open>lookup\<close> is \<^verbatim>\<open>dns.lookup(hostname, {all: true, verbatim: true})\<close>: the addresses it
  answers, or the message of the error it throws.
\<close>

definition assertSafeResolvedHost ::
  "(string \<Rightarrow> bool) \<Rightarrow> (string \<Rightarrow> error + string list) \<Rightarrow> string \<Rightarrow> error + unit" where
  "assertSafeResolvedHost isIPv6 lookup hostname' =
     (case assertSafeHostname isIPv6 hostname' of
        Inl e \<Rightarrow> Inl e
      | Inr _ \<Rightarrow>
          (case lookup hostname' of
             Inl e \<Rightarrow> Inl e
           | Inr answers \<Rightarrow>
               if answers = [] then Inl ''dns_resolution_failed''
               else assertSafeAnswers isIPv6 answers))"

definition assertSafeUrl ::
  "(string \<Rightarrow> bool) \<Rightarrow> (string \<Rightarrow> error + string list) \<Rightarrow> url \<Rightarrow> bool \<Rightarrow> error + unit" where
  "assertSafeUrl isIPv6 lookup u allowHttp =
     (if protocol u \<notin> set [''https:'', ''http:''] then Inl ''invalid_scheme''
      else if protocol u = ''http:'' \<and> \<not> allowHttp then Inl ''invalid_scheme''
      else if username u \<noteq> [] \<or> password u \<noteq> [] then Inl ''credentials_not_allowed''
      else assertSafeResolvedHost isIPv6 lookup (hostname u))"

text \<open>
  Dotted-decimal rendering of an IPv4 address, for stating which host names are literal
  addresses. \<^verbatim>\<open>String(n)\<close> of a non-negative integer is its decimal numeral.
\<close>

definition digitChar :: "nat \<Rightarrow> char" where
  "digitChar n = ''0123456789'' ! n"

fun showNat :: "nat \<Rightarrow> string" where
  "showNat n = (if n < 10 then [digitChar n] else showNat (n div 10) @ [digitChar (n mod 10)])"

declare showNat.simps [simp del]

definition dotted :: "nat \<Rightarrow> nat \<Rightarrow> nat \<Rightarrow> nat \<Rightarrow> string" where
  "dotted a b c d = showNat a @ ''.'' @ showNat b @ ''.'' @ showNat c @ ''.'' @ showNat d"

definition ipv4Value :: "nat \<Rightarrow> nat \<Rightarrow> nat \<Rightarrow> nat \<Rightarrow> nat" where
  "ipv4Value a b c d = a * 2 ^ 24 + b * 2 ^ 16 + c * 2 ^ 8 + d"

text \<open>
  The blocked ranges as the specification lists them, in CIDR notation: an address lies in
  \<open>base/len\<close> when its leading \<open>len\<close> bits are those of \<open>base\<close>. The last item of the list,
  \<^verbatim>\<open>224.0.0.0/4\<close> and above, is every address from 224.0.0.0 upwards.
\<close>

definition inCidr :: "nat \<Rightarrow> nat \<Rightarrow> nat \<Rightarrow> bool" where
  "inCidr v base len = (v div 2 ^ (32 - len) = base div 2 ^ (32 - len))"

definition spec_blocked_cidrs :: "(nat \<times> nat) list" where
  "spec_blocked_cidrs =
    [(ipv4Value 0 0 0 0, 8), (ipv4Value 10 0 0 0, 8), (ipv4Value 100 64 0 0, 10),
     (ipv4Value 127 0 0 0, 8), (ipv4Value 169 254 0 0, 16), (ipv4Value 172 16 0 0, 12),
     (ipv4Value 192 0 0 0, 24), (ipv4Value 192 0 2 0, 24), (ipv4Value 192 168 0 0, 16),
     (ipv4Value 198 18 0 0, 15), (ipv4Value 198 51 100 0, 24), (ipv4Value 203 0 113 0, 24)]"

definition spec_blocked_ipv4 :: "nat \<Rightarrow> bool" where
  "spec_blocked_ipv4 v =
     (list_ex (\<lambda>(base, len). inCidr v base len) spec_blocked_cidrs \<or> v \<ge> ipv4Value 224 0 0 0)"

section \<open>File cache (cache/file-cache.ts)\<close>

text \<open>
  The cache directory is a list of files, name and content, in the order
  \<^verbatim>\<open>fs.readdirSync\<close> lists them. Every path the cache touches is \<^verbatim>\<open>path.join(dir, name)\<close>,
  so a file is addressed by its name. \<^verbatim>\<open>fs.existsSync\<close> and \<^verbatim>\<open>fs.readFileSync\<close> are
  \<^const>\<open>map_of\<close>, \<^verbatim>\<open>fs.writeFileSync\<close> is \<^const>\<open>AList.update\<close> and
  \<^verbatim>\<open>fs.rmSync(..., {force: true})\<close> is \<^const>\<open>AList.delete\<close>.
\<close>

type_synonym directory = "(string \<times> string) list"

record cache_meta =
  meta_cacheKey :: string
  meta_slug :: string
  meta_cachedAt :: int
  meta_contentType :: string
  meta_status :: nat
  meta_headers :: "(string \<times> string) list"
  meta_bodyFile :: string
  meta_size :: nat

record cached_response =
  cr_status :: nat
  cr_headers :: "(string \<times> string) list"
  cr_body :: string
  cr_contentType :: string
  cr_cachedAt :: int

text \<open>
  The cache object: its two limits, and the runtime's \<^verbatim>\<open>JSON.parse\<close> and
  \<^verbatim>\<open>JSON.stringify\<close> on metadata. \<open>cache_parse\<close> is \<^const>\<open>None\<close> where reading the text as
  metadata throws; a text whose JSON lacks a field of the metadata counts as such.
\<close>

record file_cache =
  cache_ttlSeconds :: nat
  cache_maxBytes :: nat
  cache_parse :: "string \<Rightarrow> cache_meta option"
  cache_stringify :: "cache_meta \<Rightarrow> string"

definition isSafeSlugChar :: "char \<Rightarrow> bool" where
  "isSafeSlugChar c =
     (c \<in> set ''abcdefghijklmnopqrstuvwxyzABCDEFGHIJKLMNOPQRSTUVWXYZ0123456789_-'')"

definition safeSlug :: "string \<Rightarrow> string" where
  "safeSlug slug =
     (let folded = take 80 (map (\<lambda>c. if isSafeSlugChar c then c else CHR ''_'') slug)
      in if folded = [] then ''default'' else folded)"

definition metaPath :: "string \<Rightarrow> string \<Rightarrow> string" where
  "metaPath slug cacheKey = safeSlug slug @ ''_'' @ cacheKey @ ''.json''"

definition bodyPath :: "string \<Rightarrow> string \<Rightarrow> string" where
  "bodyPath slug cacheKey = safeSlug slug @ ''_'' @ cacheKey @ ''.bin''"

definition removePair :: "directory \<Rightarrow> string \<Rightarrow> string \<Rightarrow> directory" where
  "removePair fs metaFile bodyFile = AList.delete bodyFile (AList.delete metaFile fs)"

text \<open>\<^verbatim>\<open>(Date.now() - meta.cachedAt) / 1000 > this.ttlSeconds\<close>, times in milliseconds.\<close>

definition isExpired :: "file_cache \<Rightarrow> int \<Rightarrow> int \<Rightarrow> bool" where
  "isExpired c now cachedAt = (real_of_int (now - cachedAt) / 1000 > real (cache_ttlSeconds c))"

text \<open>
  \<^verbatim>\<open>get\<close> returns the cached response or \<^verbatim>\<open>null\<close>, and the directory as it leaves it.
\<close>

definition cache_get ::
  "file_cache \<Rightarrow> int \<Rightarrow> directory \<Rightarrow> string \<Rightarrow> string \<Rightarrow> cached_response option \<times> directory" where
  "cache_get c now fs slug cacheKey =
     (let metaFile = metaPath slug cacheKey
      in case map_of fs metaFile of
           None \<Rightarrow> (None, fs)
         | Some raw \<Rightarrow>
            (case cache_parse c raw of
               None \<Rightarrow> (None, AList.delete metaFile fs)
             | Some meta \<Rightarrow>
                if isExpired c now (meta_cachedAt meta)
                then (None, removePair fs metaFile (meta_bodyFile meta))
                else
                 (case map_of fs (meta_bodyFile meta) of
                    None \<Rightarrow> (None, AList.delete metaFile fs)
                  | Some body \<Rightarrow>
                     (Some \<lparr>cr_status = meta_status meta, cr_headers = meta_headers meta,
                            cr_body = body, cr_contentType = meta_contentType meta,
                            cr_cachedAt = meta_cachedAt meta\<rparr>, fs))))"

text \<open>
  \<^verbatim>\<open>prune\<close>. Its first loop walks the names listed at its start, reading the directory as
  the loop has left it so far, and collects the entries that survive.
\<close>

record prune_item =
  item_metaPath :: string
  item_bodyPath :: string
  item_cachedAt :: int
  item_size :: nat

fun pruneScan ::
  "file_cache \<Rightarrow> int \<Rightarrow> string list \<Rightarrow> directory \<Rightarrow> prune_item list
     \<Rightarrow> directory \<times> prune_item list" where
  "pruneScan c now [] fs metas = (fs, metas)"
| "pruneScan c now (file # rest) fs metas =
     (if \<not> endsWith file ''.json'' then pruneScan c now rest fs metas
      else
       (case map_of fs file of
          None \<Rightarrow> pruneScan c now rest (AList.delete file fs) metas
        | Some raw \<Rightarrow>
           (case cache_parse c raw of
              None \<Rightarrow> pruneScan c now rest (AList.delete file fs) metas
            | Some meta \<Rightarrow>
               if map_of fs (meta_bodyFile meta) = None
               then pruneScan c now rest (AList.delete file fs) metas
               else if isExpired c now (meta_cachedAt meta)
               then pruneScan c now rest (removePair fs file (meta_bodyFile meta)) metas
               else pruneScan c now rest fs
                      (metas @ [\<lparr>item_metaPath = file, item_bodyPath = meta_bodyFile meta,
                                 item_cachedAt = meta_cachedAt meta,
                                 item_size = meta_size meta\<rparr>]))))"

text \<open>The second loop: \<^verbatim>\<open>for (const item of metas) { if (total <= maxBytes) break; ... }\<close>.\<close>

fun evictLoop :: "file_cache \<Rightarrow> prune_item list \<Rightarrow> int \<Rightarrow> directory \<Rightarrow> directory" where
  "evictLoop c [] total' fs = fs"
| "evictLoop c (item # rest) total' fs =
     (if total' \<le> int (cache_maxBytes c) then fs
      else evictLoop c rest (total' - int (item_size item))
             (removePair fs (item_metaPath item) (item_bodyPath item)))"

text \<open>\<^verbatim>\<open>metas.sort((a, b) => a.cachedAt - b.cachedAt)\<close> is a stable ascending sort.\<close>

definition prune :: "file_cache \<Rightarrow> int \<Rightarrow> directory \<Rightarrow> directory" where
  "prune c now fs =
     (case pruneScan c now (map fst fs) fs [] of
        (fs1, metas) \<Rightarrow>
          (let total' = (\<Sum>item\<leftarrow>metas. int (item_size item))
           in if total' \<le> int (cache_maxBytes c) then fs1
              else evictLoop c (sort_key item_cachedAt metas) total' fs1))"

text \<open>
  \<^verbatim>\<open>set\<close>, with \<open>now\<close> the value of \<^verbatim>\<open>Date.now()\<close> during the call. An entry larger than
  half of \<^verbatim>\<open>maxBytes\<close> is refused silently.
\<close>

definition cache_set ::
  "file_cache \<Rightarrow> int \<Rightarrow> directory \<Rightarrow> string \<Rightarrow> string \<Rightarrow> cached_response \<Rightarrow> directory" where
  "cache_set c now fs slug cacheKey response =
     (let bodyFile = safeSlug slug @ ''_'' @ cacheKey @ ''.bin'';
          metaFile = metaPath slug cacheKey;
          size' = length (cr_body response)
      in if real size' > real (cache_maxBytes c) / 2 then fs
         else
          (let fs1 = AList.update bodyFile (cr_body response) fs;
               meta = \<lparr>meta_cacheKey = cacheKey, meta_slug = slug, meta_cachedAt = now,
                       meta_contentType = cr_contentType response,
                       meta_status = cr_status response, meta_headers = cr_headers response,
                       meta_bodyFile = bodyFile, meta_size = size'\<rparr>;
               fs2 = AList.update metaFile (cache_stringify c meta) fs1
           in prune c now fs2))"

text \<open>
  The bytes a directory holds in live entries, as \<^verbatim>\<open>stats\<close> and \<^verbatim>\<open>prune\<close> count them: the
  recorded size of every metadata file that parses, is not expired and whose body file is
  present.
\<close>

definition entryBytes :: "file_cache \<Rightarrow> int \<Rightarrow> directory \<Rightarrow> string \<times> string \<Rightarrow> nat" where
  "entryBytes c now fs entry =
     (case entry of (name, raw) \<Rightarrow>
        (case cache_parse c raw of
           None \<Rightarrow> 0
         | Some meta \<Rightarrow>
            if endsWith name ''.json'' \<and> \<not> isExpired c now (meta_cachedAt meta) \<and>
               map_of fs (meta_bodyFile meta) \<noteq> None
            then meta_size meta else 0))"

definition liveBytes :: "file_cache \<Rightarrow> int \<Rightarrow> directory \<Rightarrow> nat" where
  "liveBytes c now fs = (\<Sum>entry\<leftarrow>fs. entryBytes c now fs entry)"

text \<open>Removing the pairs of a list of items, in order.\<close>

definition removeItems :: "directory \<Rightarrow> prune_item list \<Rightarrow> directory" where
  "removeItems fs items =
     foldl (\<lambda>f item. removePair f (item_metaPath item) (item_bodyPath item)) fs items"

section \<open>Runtime and configuration\<close>

text \<open>
  What the sources take from the runtime and do not define: the URL parser with and without
  a base (\<^verbatim>\<open>new URL(raw)\<close>, \<^verbatim>\<open>new URL(value, base)\<close>; \<^const>\<open>None\<close> when it throws) and the
  IPv6 half of \<^verbatim>\<open>net.isIP\<close>.
\<close>

record runtime =
  rt_parseUrl :: "string \<Rightarrow> url option"
  rt_resolveUrl :: "string \<Rightarrow> url \<Rightarrow> url option"
  rt_isIPv6 :: "string \<Rightarrow> bool"

record config =
  MIRROR_ENABLE_HTTP :: bool
  MIRROR_MAX_HTML_BYTES :: nat
  MIRROR_MAX_BINARY_BYTES :: nat

text \<open>
  \<^verbatim>\<open>encodeURIComponent\<close>: letters, digits and \<^verbatim>\<open>-_.!~*'()\<close> stay, every other byte becomes
  \<^verbatim>\<open>%XX\<close>.
\<close>

definition unreservedChars :: string where
  "unreservedChars =
     ''ABCDEFGHIJKLMNOPQRSTUVWXYZabcdefghijklmnopqrstuvwxyz0123456789-_.!~*()'' @ [CHR 0x27]"

definition hexDigit :: "nat \<Rightarrow> char" where
  "hexDigit n = ''0123456789ABCDEF'' ! n"

definition encodeChar :: "char \<Rightarrow> string" where
  "encodeChar c =
     (if c \<in> set unreservedChars then [c]
      else [CHR ''%'', hexDigit (of_char c div 16), hexDigit (of_char c mod 16)])"

definition encodeURIComponent :: "string \<Rightarrow> string" where
  "encodeURIComponent s = concat (map encodeChar s)"

section \<open>Mirror registry (db/sqlite.ts)\<close>

text \<open>
  The two tables as lists of rows in insertion order. \<^verbatim>\<open>id\<close> is a primary key and
  \<^verbatim>\<open>slug\<close> is declared \<^verbatim>\<open>UNIQUE\<close>: an insert that repeats one fails and changes nothing.
  Time stamps and random identifiers are arguments.
\<close>

record mirror_record =
  mirror_id :: string
  mirror_slug :: string
  targetOrigin :: string
  createdAt :: string
  updatedAt :: string
  lastPath :: "string option"
  disabled :: bool

record mirror_event =
  event_id :: string
  event_at :: string
  event_level :: string
  event_kind :: string
  event_slug :: "string option"
  event_message :: string
  event_meta :: "(string \<times> string) list"

record mirror_db =
  mirrors :: "mirror_record list"
  events :: "mirror_event list"

definition findMirrorBySlug :: "mirror_db \<Rightarrow> string \<Rightarrow> mirror_record option" where
  "findMirrorBySlug db slug = find (\<lambda>m. mirror_slug m = slug) (mirrors db)"

definition findMirrorByOrigin :: "mirror_db \<Rightarrow> string \<Rightarrow> mirror_record option" where
  "findMirrorByOrigin db origin = find (\<lambda>m. targetOrigin m = origin \<and> \<not> disabled m) (mirrors db)"

definition createMirror ::
  "mirror_db \<Rightarrow> string \<Rightarrow> string \<Rightarrow> string \<Rightarrow> string \<Rightarrow> string option
     \<Rightarrow> (error + mirror_record) \<times> mirror_db" where
  "createMirror db rand now slug origin path =
     (let id' = ''mir_'' @ rand
      in if list_ex (\<lambda>m. mirror_id m = id') (mirrors db)
         then (Inl ''UNIQUE constraint failed: mirrors.id'', db)
         else if list_ex (\<lambda>m. mirror_slug m = slug) (mirrors db)
         then (Inl ''UNIQUE constraint failed: mirrors.slug'', db)
         else
           (let db' = db\<lparr>mirrors := mirrors db @
                  [\<lparr>mirror_id = id', mirror_slug = slug, targetOrigin = origin, createdAt = now,
                    updatedAt = now, lastPath = path, disabled = False\<rparr>]\<rparr>
            in case findMirrorBySlug db' slug of
                 Some m \<Rightarrow> (Inr m, db')
               | None \<Rightarrow> (Inl ''Cannot read properties of null'', db')))"

definition touchMirror :: "mirror_db \<Rightarrow> string \<Rightarrow> string \<Rightarrow> string option \<Rightarrow> mirror_db" where
  "touchMirror db now slug path =
     db\<lparr>mirrors :=
          map (\<lambda>m. if mirror_slug m = slug
                    then m\<lparr>updatedAt := now,
                           lastPath := (case path of Some p \<Rightarrow> Some p | None \<Rightarrow> lastPath m)\<rparr>
                    else m)
              (mirrors db)\<rparr>"

definition logEvent ::
  "mirror_db \<Rightarrow> string \<Rightarrow> string \<Rightarrow> string \<Rightarrow> string \<Rightarrow> string option \<Rightarrow> string
     \<Rightarrow> (string \<times> string) list \<Rightarrow> (error + mirror_event) \<times> mirror_db" where
  "logEvent db rand now level kind slug message meta =
     (let event = \<lparr>event_id = ''evt_'' @ rand, event_at = now, event_level = level,
                    event_kind = kind, event_slug = slug, event_message = message,
                    event_meta = meta\<rparr>
      in if list_ex (\<lambda>e. event_id e = event_id event) (events db)
         then (Inl ''UNIQUE constraint failed: events.id'', db)
         else (Inr event, db\<lparr>events := events db @ [event]\<rparr>))"

section \<open>Proxy pipeline (mirror/proxy.ts)\<close>

subsection \<open>Slugs\<close>

definition isSlugChar :: "char \<Rightarrow> bool" where
  "isSlugChar c = (c \<in> set ''abcdefghijklmnopqrstuvwxyz0123456789'')"

text \<open>
  \<^verbatim>\<open>.replace(/[^a-z0-9]+/g, '-')\<close>: every maximal run of other characters becomes one dash.
  The flag says that the previous character belonged to such a run.
\<close>

fun foldRuns :: "bool \<Rightarrow> string \<Rightarrow> string" where
  "foldRuns inRun [] = []"
| "foldRuns inRun (c # cs) =
     (if isSlugChar c then c # foldRuns False cs
      else if inRun then foldRuns True cs
      else CHR ''-'' # foldRuns True cs)"

definition stripDashes :: "string \<Rightarrow> string" where
  "stripDashes s = rev (dropWhile (\<lambda>c. c = CHR ''-'') (rev (dropWhile (\<lambda>c. c = CHR ''-'') s)))"

definition slugifyHost :: "string \<Rightarrow> string" where
  "slugifyHost host =
     (let slug = take 48 (stripDashes (foldRuns False (toLowerCase host)))
      in if slug = [] then ''site'' else slug)"

definition ensureUniqueSlug :: "string \<Rightarrow> (string \<Rightarrow> bool) \<Rightarrow> string \<Rightarrow> string" where
  "ensureUniqueSlug base exists rand =
     (if \<not> exists base then base
      else (case find (\<lambda>i. \<not> exists (base @ ''-'' @ showNat i)) [2..<1000] of
              Some i \<Rightarrow> base @ ''-'' @ showNat i
            | None \<Rightarrow> base @ ''-'' @ rand))"

subsection \<open>Replies and upstream responses\<close>

text \<open>
  A reply is its status code, its header table and what was sent. \<^verbatim>\<open>reply.header\<close> stores
  under the lower-cased name. The pipeline never passes it \<^verbatim>\<open>set-cookie\<close>, the one name
  whose values the framework accumulates, so the table holds one string per name.
\<close>

record resolved =
  res_slug :: string
  res_targetOrigin :: string
  res_launchUrl :: string
  res_created :: bool

text \<open>
  What \<^verbatim>\<open>reply.send\<close> was given: nothing, a body, the object
  \<^verbatim>\<open>{ok: false, error: message}\<close>, or the result of a resolve.
\<close>

datatype payload = Unsent | Empty | Body string | Failure string | Resolved resolved

record reply =
  code :: nat
  headers :: "string \<rightharpoonup> string"
  sent :: payload

definition reply_header :: "reply \<Rightarrow> string \<Rightarrow> string \<Rightarrow> reply" where
  "reply_header r key v = r\<lparr>headers := (headers r)(toLowerCase key \<mapsto> v)\<rparr>"

definition reply_code :: "reply \<Rightarrow> nat \<Rightarrow> reply" where
  "reply_code r c = r\<lparr>code := c\<rparr>"

definition reply_send :: "reply \<Rightarrow> payload \<Rightarrow> reply" where
  "reply_send r p = r\<lparr>sent := p\<rparr>"

text \<open>
  The reply a handler receives: the server's \<^verbatim>\<open>onRequest\<close> hook has already set
  \<^verbatim>\<open>x-robots-tag\<close> on it.
\<close>

definition onRequestReply :: reply where
  "onRequestReply =
     reply_header \<lparr>code = 200, headers = Map.empty, sent = Unsent\<rparr> ''x-robots-tag'' ''noindex, nofollow''"

text \<open>
  An upstream response with its body read. Its headers are the pairs \<^verbatim>\<open>headers.entries()\<close>
  yields; \<^verbatim>\<open>headers.get(name)\<close> looks a name up regardless of case.
\<close>

record response =
  resp_status :: nat
  resp_headers :: "(string \<times> string) list"
  resp_body :: string

definition headers_get :: "(string \<times> string) list \<Rightarrow> string \<Rightarrow> string option" where
  "headers_get hs name = map_of (map (\<lambda>(k, v). (toLowerCase k, v)) hs) (toLowerCase name)"

subsection \<open>Header policy\<close>

definition hopByHop :: "string list" where
  "hopByHop =
     [''connection'', ''transfer-encoding'', ''keep-alive'', ''proxy-authenticate'',
      ''proxy-authorization'', ''te'', ''trailers'', ''upgrade'']"

fun copyHeaderLoop :: "reply \<Rightarrow> (string \<times> string) list \<Rightarrow> bool \<Rightarrow> reply" where
  "copyHeaderLoop r [] rewrittenBody = r"
| "copyHeaderLoop r ((key, v) # rest) rewrittenBody =
     (let lower = toLowerCase key
      in if lower \<in> set hopByHop then copyHeaderLoop r rest rewrittenBody
         else if lower = ''content-security-policy'' then copyHeaderLoop r rest rewrittenBody
         else if lower = ''set-cookie'' then copyHeaderLoop r rest rewrittenBody
         else if rewrittenBody \<and>
                 (lower = ''content-length'' \<or> lower = ''content-encoding'' \<or> lower = ''etag'')
         then copyHeaderLoop r rest rewrittenBody
         else copyHeaderLoop (reply_header r key v) rest rewrittenBody)"

definition copySafeHeaders :: "reply \<Rightarrow> (string \<times> string) list \<Rightarrow> bool \<Rightarrow> reply" where
  "copySafeHeaders r hs rewrittenBody =
     reply_header (copyHeaderLoop r hs rewrittenBody) ''x-robots-tag'' ''noindex, nofollow''"

text \<open>
  \<^verbatim>\<open>sanitizeOutgoingHeaders\<close>: the request headers sent upstream. \<open>inbound\<close> holds the
  string-valued headers of the client's request.
\<close>

definition sanitizeOutgoingHeaders :: "(string \<rightharpoonup> string) \<Rightarrow> (string \<rightharpoonup> string)" where
  "sanitizeOutgoingHeaders inbound =
     (let h0 = Map.empty;
          h1 = (case inbound ''user-agent'' of Some v \<Rightarrow> h0(''user-agent'' \<mapsto> v) | None \<Rightarrow> h0);
          h2 = (case inbound ''accept'' of Some v \<Rightarrow> h1(''accept'' \<mapsto> v) | None \<Rightarrow> h1);
          h3 = (case inbound ''accept-language'' of
                  Some v \<Rightarrow> h2(''accept-language'' \<mapsto> v) | None \<Rightarrow> h2)
      in h3(''cache-control'' \<mapsto> ''no-cache'', ''pragma'' \<mapsto> ''no-cache''))"

subsection \<open>Upstream fetch with redirect validation\<close>

text \<open>
  The network as the loop sees it. Both the resolver and the upstream server may answer
  differently each time they are asked, so both take the number of effects performed so
  far (the length of the trace) as a logical time. \<open>net_fetch\<close> is
  \<^verbatim>\<open>fetch(current, {method, headers, redirect: 'manual', signal})\<close>: a response, or the
  message of the error it throws (a timeout or a network failure).
\<close>

record network =
  net_lookup :: "nat \<Rightarrow> string \<Rightarrow> error + string list"
  net_fetch :: "nat \<Rightarrow> string \<Rightarrow> (string \<rightharpoonup> string) \<Rightarrow> url \<Rightarrow> error + response"

text \<open>
  The trace records each evaluation of the guard and of the allowlist matcher with its
  outcome, and each request issued.
\<close>

datatype net_event =
    GuardEv url "error + unit"
  | MatchEv url bool
  | FetchEv url

text \<open>
  \<^verbatim>\<open>response.status >= 300 && response.status < 400 && response.headers.get('location')\<close>:
  an empty \<^verbatim>\<open>Location\<close> is falsy.
\<close>

definition redirectLocation :: "response \<Rightarrow> string option" where
  "redirectLocation resp =
     (if resp_status resp \<ge> 300 \<and> resp_status resp < 400
      then (case headers_get (resp_headers resp) ''location'' of
              Some loc \<Rightarrow> if loc = [] then None else Some loc
            | None \<Rightarrow> None)
      else None)"

function fetchLoop ::
  "runtime \<Rightarrow> network \<Rightarrow> config \<Rightarrow> allowlist_entry list \<Rightarrow> string \<Rightarrow> (string \<rightharpoonup> string)
     \<Rightarrow> nat \<Rightarrow> url \<Rightarrow> net_event list \<Rightarrow> (error + response \<times> url) \<times> net_event list" where
  "fetchLoop rt nw cfg allowlist method hdrs hop current trace =
     (if hop < 5 then
        (let g = assertSafeUrl (rt_isIPv6 rt) (net_lookup nw (length trace)) current
                   (MIRROR_ENABLE_HTTP cfg);
             trace1 = trace @ [GuardEv current g]
         in case g of
              Inl e \<Rightarrow> (Inl e, trace1)
            | Inr _ \<Rightarrow>
               (let m = allowlist_match allowlist current;
                    trace2 = trace1 @ [MatchEv current (m \<noteq> None)]
                in if m = None then (Inl ''domain_not_allowed'', trace2)
                   else
                    (let trace3 = trace2 @ [FetchEv current]
                     in case net_fetch nw (length trace2) method hdrs current of
                          Inl e \<Rightarrow> (Inl e, trace3)
                        | Inr resp \<Rightarrow>
                           (case redirectLocation resp of
                              None \<Rightarrow> (Inr (resp, current), trace3)
                            | Some loc \<Rightarrow>
                               (case rt_resolveUrl rt loc current of
                                  None \<Rightarrow> (Inl ''Invalid URL'', trace3)
                                | Some next \<Rightarrow>
                                   (let g' = assertSafeUrl (rt_isIPv6 rt)
                                               (net_lookup nw (length trace3)) next
                                               (MIRROR_ENABLE_HTTP cfg);
                                        trace4 = trace3 @ [GuardEv next g']
                                    in case g' of
                                         Inl e \<Rightarrow> (Inl e, trace4)
                                       | Inr _ \<Rightarrow>
                                          (let ok = (allowlist_match allowlist next \<noteq> None);
                                               trace5 = trace4 @ [MatchEv next ok]
                                           in if \<not> ok then (Inl ''domain_not_allowed'', trace5)
                                              else fetchLoop rt nw cfg allowlist method hdrs
                                                     (hop + 1) next trace5)))))))
      else (Inl ''too_many_redirects'', trace))"
  by pat_completeness auto
termination
  by (relation "measure (\<lambda>(rt, nw, cfg, allowlist, method, hdrs, hop, current, trace). 5 - hop)") auto

declare fetchLoop.simps [simp del]

definition fetchWithRedirectValidation ::
  "runtime \<Rightarrow> network \<Rightarrow> config \<Rightarrow> allowlist_entry list \<Rightarrow> (string \<rightharpoonup> string) \<Rightarrow> url
     \<Rightarrow> string \<Rightarrow> net_event list \<Rightarrow> (error + response \<times> url) \<times> net_event list" where
  "fetchWithRedirectValidation rt nw cfg allowlist inbound upstreamUrl method trace =
     fetchLoop rt nw cfg allowlist method (sanitizeOutgoingHeaders inbound) 0 upstreamUrl trace"

subsection \<open>Resolving a URL to a mirror\<close>

text \<open>
  The values one call of \<^verbatim>\<open>resolveTargetUrl\<close> draws from the clock and from
  \<^verbatim>\<open>crypto.randomBytes\<close>: the time stamp, the hexadecimal suffix of a slug, and those of
  the identifiers of a new mirror row and a new event row.
\<close>

record draws =
  draw_now :: string
  draw_slug :: string
  draw_mirror :: string
  draw_event :: string

definition resolveOrCreateMirrorForUrl ::
  "draws \<Rightarrow> mirror_db \<Rightarrow> url \<Rightarrow> (error + bool \<times> mirror_record) \<times> mirror_db" where
  "resolveOrCreateMirrorForUrl dr db u =
     (let origin = protocol u @ ''//'' @ url_host u
      in case findMirrorByOrigin db origin of
           Some existing \<Rightarrow>
             (Inr (False, existing),
              touchMirror db (draw_now dr) (mirror_slug existing) (Some (pathname u @ search u)))
         | None \<Rightarrow>
             (let baseSlug = slugifyHost (hostname u);
                  slug = ensureUniqueSlug baseSlug (\<lambda>candidate. findMirrorBySlug db candidate \<noteq> None)
                           (draw_slug dr)
              in case createMirror db (draw_mirror dr) (draw_now dr) slug origin
                        (Some (pathname u @ search u)) of
                   (Inl e, db') \<Rightarrow> (Inl e, db')
                 | (Inr mirror, db') \<Rightarrow> (Inr (True, mirror), db')))"

definition buildLaunchUrl :: "string \<Rightarrow> url \<Rightarrow> string" where
  "buildLaunchUrl slug u =
     (let path = (if pathname u = ''/'' then [] else pathname u)
      in ''/m/'' @ encodeURIComponent slug @ path @ search u)"

definition showBool :: "bool \<Rightarrow> string" where
  "showBool b = (if b then ''true'' else ''false'')"

definition resolveTargetUrl ::
  "runtime \<Rightarrow> (string \<Rightarrow> error + string list) \<Rightarrow> config \<Rightarrow> allowlist_entry list \<Rightarrow> draws
     \<Rightarrow> mirror_db \<Rightarrow> string \<Rightarrow> (error + resolved) \<times> mirror_db" where
  "resolveTargetUrl rt lookup cfg allowlist dr db rawUrl =
     (case rt_parseUrl rt rawUrl of
        None \<Rightarrow> (Inl ''invalid_url'', db)
      | Some parsed \<Rightarrow>
         (case assertSafeUrl (rt_isIPv6 rt) lookup parsed (MIRROR_ENABLE_HTTP cfg) of
            Inl e \<Rightarrow> (Inl e, db)
          | Inr _ \<Rightarrow>
             if \<not> isAllowed allowlist parsed then (Inl ''domain_not_allowed'', db)
             else
              (case resolveOrCreateMirrorForUrl dr db parsed of
                 (Inl e, db1) \<Rightarrow> (Inl e, db1)
               | (Inr (created, mirror), db1) \<Rightarrow>
                  (case logEvent db1 (draw_event dr) (draw_now dr) ''info'' ''resolve''
                          (Some (mirror_slug mirror)) ''Mirror resolved''
                          [(''url'', url_toString parsed), (''created'', showBool created)] of
                     (Inl e, db2) \<Rightarrow> (Inl e, db2)
                   | (Inr _, db2) \<Rightarrow>
                      (Inr \<lparr>res_slug = mirror_slug mirror,
                            res_targetOrigin = targetOrigin mirror,
                            res_launchUrl = buildLaunchUrl (mirror_slug mirror) parsed,
                            res_created = created\<rparr>, db2)))))"

subsection \<open>Replying to a mirrored request\<close>

text \<open>
  The body of the \<^verbatim>\<open>try\<close> block of \<^verbatim>\<open>handleMirrorRequest\<close> after the fetch: the reply
  built from the upstream response. The two rewriters work on the body text and are
  parameters here. Sizes are byte counts.
\<close>

definition responseContentType :: "response \<Rightarrow> string" where
  "responseContentType resp =
     (case headers_get (resp_headers resp) ''content-type'' of
        Some ct \<Rightarrow> ct
      | None \<Rightarrow> ''application/octet-stream'')"

definition isHtmlResponse :: "response \<Rightarrow> bool" where
  "isHtmlResponse resp = includes_str (responseContentType resp) ''text/html''"

definition isCssResponse :: "response \<Rightarrow> bool" where
  "isCssResponse resp = includes_str (responseContentType resp) ''text/css''"

definition textLikeResponse :: "response \<Rightarrow> bool" where
  "textLikeResponse resp =
     (isHtmlResponse resp \<or> isCssResponse resp \<or>
      includes_str (responseContentType resp) ''javascript'' \<or>
      includes_str (responseContentType resp) ''json'' \<or>
      startsWith (responseContentType resp) ''text/'')"

definition upstreamReply ::
  "config \<Rightarrow> (string \<Rightarrow> url \<Rightarrow> url \<Rightarrow> string \<Rightarrow> string) \<Rightarrow> (string \<Rightarrow> url \<Rightarrow> url \<Rightarrow> string \<Rightarrow> string)
     \<Rightarrow> string \<Rightarrow> string \<Rightarrow> url \<Rightarrow> reply \<Rightarrow> response \<Rightarrow> url \<Rightarrow> reply" where
  "upstreamReply cfg rewriteHtml rewriteCss method slug target r resp finalUrl =
     (if method = ''HEAD'' then
        reply_send
          (reply_header (copySafeHeaders (reply_code r (resp_status resp)) (resp_headers resp) False)
             ''x-cache'' ''MISS'')
          Empty
      else if textLikeResponse resp \<and> isHtmlResponse resp \<and>
              length (resp_body resp) > MIRROR_MAX_HTML_BYTES cfg then
        reply_send (reply_code r 413) (Failure ''html_too_large'')
      else if \<not> textLikeResponse resp \<and> length (resp_body resp) > MIRROR_MAX_BINARY_BYTES cfg then
        reply_send (reply_code r 413) (Failure ''binary_too_large'')
      else
        (let rewritten = (isHtmlResponse resp \<or> isCssResponse resp);
             outputBody = (if isHtmlResponse resp
                           then rewriteHtml (resp_body resp) finalUrl target slug
                           else if isCssResponse resp
                           then rewriteCss (resp_body resp) finalUrl target slug
                           else resp_body resp);
             r1 = reply_code r (resp_status resp);
             r2 = copySafeHeaders r1 (resp_headers resp) rewritten;
             r3 = reply_header r2 ''x-cache'' ''MISS'';
             r4 = (if rewritten then reply_header r3 ''content-length'' (showNat (length outputBody))
                   else r3)
         in reply_send r4 (Body outputBody)))"

text \<open>The \<^verbatim>\<open>catch\<close> block of \<^verbatim>\<open>handleMirrorRequest\<close>.\<close>

definition proxyErrorKind :: "string \<Rightarrow> string" where
  "proxyErrorKind message =
     (if message = ''ssrf_blocked'' then ''ssrf-blocked''
      else if includes_str message ''timeout'' then ''upstream-timeout''
      else ''proxy-error'')"

definition proxyErrorStatus :: "string \<Rightarrow> nat" where
  "proxyErrorStatus message =
     (if message = ''domain_not_allowed'' \<or> message = ''ssrf_blocked'' then 403
      else if message = ''invalid_url'' then 400
      else 502)"

definition proxyErrorReply :: "reply \<Rightarrow> string \<Rightarrow> reply" where
  "proxyErrorReply r message = reply_send (reply_code r (proxyErrorStatus message)) (Failure message)"

text \<open>
  \<^verbatim>\<open>handleMirrorRequest\<close> from the cache miss on: the guarded fetch, then the reply of the
  \<^verbatim>\<open>try\<close> block or of the \<^verbatim>\<open>catch\<close> block. The cache write, the touch of the mirror
  and the event rows of this part of the handler are left out.
\<close>

definition handleMirrorMiss ::
  "runtime \<Rightarrow> network \<Rightarrow> config \<Rightarrow> allowlist_entry list
     \<Rightarrow> (string \<Rightarrow> url \<Rightarrow> url \<Rightarrow> string \<Rightarrow> string) \<Rightarrow> (string \<Rightarrow> url \<Rightarrow> url \<Rightarrow> string \<Rightarrow> string)
     \<Rightarrow> (string \<rightharpoonup> string) \<Rightarrow> string \<Rightarrow> string \<Rightarrow> url \<Rightarrow> url \<Rightarrow> reply \<Rightarrow> net_event list
     \<Rightarrow> reply \<times> net_event list" where
  "handleMirrorMiss rt nw cfg allowlist rewriteHtml rewriteCss inbound method slug target
       upstreamUrl r trace =
     (case fetchWithRedirectValidation rt nw cfg allowlist inbound upstreamUrl method trace of
        (Inr (resp, finalUrl), trace') \<Rightarrow>
          (upstreamReply cfg rewriteHtml rewriteCss method slug target r resp finalUrl, trace')
      | (Inl message, trace') \<Rightarrow> (proxyErrorReply r message, trace'))"

subsection \<open>POST /api/resolve (routes/public.ts)\<close>

definition resolveErrorStatus :: "string \<Rightarrow> nat" where
  "resolveErrorStatus message =
     (if message = ''invalid_url'' \<or> message = ''invalid_scheme'' then 400
      else if message = ''domain_not_allowed'' \<or> message = ''ssrf_blocked'' then 403
      else if message = ''rate_limited'' then 429
      else 400)"

text \<open>
  \<open>body\<close> is the \<^verbatim>\<open>url\<close> field of the request body when it is a string, and the schema
  accepts 1 to 2000 characters. \<open>dr\<close> are the draws of \<^verbatim>\<open>resolveTargetUrl\<close>, \<open>dr'\<close> those of
  the handler's own event row. An insert that fails in the \<^verbatim>\<open>catch\<close> block reaches the
  server's error handler, which answers 500.
\<close>

definition postApiResolve ::
  "runtime \<Rightarrow> (string \<Rightarrow> error + string list) \<Rightarrow> config \<Rightarrow> allowlist_entry list \<Rightarrow> bool
     \<Rightarrow> draws \<Rightarrow> draws \<Rightarrow> mirror_db \<Rightarrow> string option \<Rightarrow> reply \<Rightarrow> reply \<times> mirror_db" where
  "postApiResolve rt lookup cfg allowlist serviceDisabled dr dr' db body r =
     (if serviceDisabled then (reply_send (reply_code r 503) (Failure ''service_disabled''), db)
      else
       (case body of
          None \<Rightarrow> (reply_send (reply_code r 400) (Failure ''invalid_url''), db)
        | Some rawUrl \<Rightarrow>
           if length rawUrl < 1 \<or> length rawUrl > 2000
           then (reply_send (reply_code r 400) (Failure ''invalid_url''), db)
           else
            (case resolveTargetUrl rt lookup cfg allowlist dr db rawUrl of
               (Inr result, db1) \<Rightarrow> (reply_send r (Resolved result), db1)
             | (Inl message, db1) \<Rightarrow>
                (let status = resolveErrorStatus message
                 in case logEvent db1 (draw_event dr') (draw_now dr') ''warn'' ''resolve-fail'' None
                           ''Resolve failed'' [(''error'', message), (''url'', rawUrl)] of
                      (Inl e, db2) \<Rightarrow> (reply_send (reply_code r 500) (Failure ''internal_error''), db2)
                    | (Inr _, db2) \<Rightarrow> (reply_send (reply_code r status) (Failure message), db2)))))"

section \<open>HTML rewriting (mirror/rewrite-html.ts)\<close>

text \<open>
  The rewriter works on the tree that cheerio's \<^verbatim>\<open>load(html)\<close> builds and hands the tree back
  to \<^verbatim>\<open>$.html()\<close>. An element has a tag name, its attributes in document order and its
  children; every other kind of node (text, comment, doctype) is carried along untouched.
  The parser and the serialiser belong to the library and are parameters.
\<close>

type_synonym attribs = "(string \<times> string) list"

datatype node = Element string attribs "node list" | Text string

record cheerio =
  ch_load :: "string \<Rightarrow> node list"
  ch_html :: "node list \<Rightarrow> string"

text \<open>
  Attribute values are arbitrary text. A string stands for the UTF-8 bytes of the JavaScript
  string (the bytes \<^verbatim>\<open>encodeURIComponent\<close> escapes), so the characters beyond ASCII that
  \<^verbatim>\<open>String.prototype.trim\<close> and \<^verbatim>\<open>\s\<close> count as white space are sequences of two or three
  bytes: U+00A0, U+1680, U+2000 to U+200A, U+2028, U+2029, U+202F, U+205F, U+3000 and U+FEFF,
  besides the six ASCII ones.
\<close>

definition whiteSpace :: "string list" where
  "whiteSpace =
     [[CHR 0x09], [CHR 0x0A], [CHR 0x0B], [CHR 0x0C], [CHR 0x0D], [CHR 0x20],
      [CHR 0xC2, CHR 0xA0],
      [CHR 0xE1, CHR 0x9A, CHR 0x80],
      [CHR 0xE2, CHR 0x80, CHR 0x80], [CHR 0xE2, CHR 0x80, CHR 0x81], [CHR 0xE2, CHR 0x80, CHR 0x82],
      [CHR 0xE2, CHR 0x80, CHR 0x83], [CHR 0xE2, CHR 0x80, CHR 0x84], [CHR 0xE2, CHR 0x80, CHR 0x85],
      [CHR 0xE2, CHR 0x80, CHR 0x86], [CHR 0xE2, CHR 0x80, CHR 0x87], [CHR 0xE2, CHR 0x80, CHR 0x88],
      [CHR 0xE2, CHR 0x80, CHR 0x89], [CHR 0xE2, CHR 0x80, CHR 0x8A],
      [CHR 0xE2, CHR 0x80, CHR 0xA8], [CHR 0xE2, CHR 0x80, CHR 0xA9], [CHR 0xE2, CHR 0x80, CHR 0xAF],
      [CHR 0xE2, CHR 0x81, CHR 0x9F],
      [CHR 0xE3, CHR 0x80, CHR 0x80],
      [CHR 0xEF, CHR 0xBB, CHR 0xBF]]"

text \<open>
  The number of bytes of the white-space character a string starts with, or ends with;
  0 when there is none.
\<close>

definition leadingSpace :: "string \<Rightarrow> nat" where
  "leadingSpace s = (case find (\<lambda>w. startsWith s w) whiteSpace of Some w \<Rightarrow> length w | None \<Rightarrow> 0)"

definition trailingSpace :: "string \<Rightarrow> nat" where
  "trailingSpace s = (case find (\<lambda>w. endsWith s w) whiteSpace of Some w \<Rightarrow> length w | None \<Rightarrow> 0)"

text \<open>\<^verbatim>\<open>String.prototype.trim\<close> on arbitrary text.\<close>

fun trimStartWs :: "string \<Rightarrow> string" where
  "trimStartWs [] = []"
| "trimStartWs (c # cs) =
     (if leadingSpace (c # cs) = 0 then c # cs
      else trimStartWs (drop (leadingSpace (c # cs) - 1) cs))"

function trimEndWs :: "string \<Rightarrow> string" where
  "trimEndWs s =
     (if trailingSpace s = 0 \<or> s = [] then s
      else trimEndWs (take (length s - trailingSpace s) s))"
  by pat_completeness auto
termination
  by (relation "measure length") auto

declare trimEndWs.simps [simp del]

definition trimWs :: "string \<Rightarrow> string" where
  "trimWs s = trimEndWs (trimStartWs s)"

text \<open>
  \<^verbatim>\<open>URL.prototype.origin\<close> as the runtime computes it: scheme, host and port for the special
  schemes other than \<^verbatim>\<open>file:\<close>; for a \<^verbatim>\<open>blob:\<close> URL the origin of the URL its path spells,
  when that one parses and is an \<^verbatim>\<open>http:\<close> or \<^verbatim>\<open>https:\<close> URL; \<^verbatim>\<open>null\<close> otherwise.
\<close>

definition url_origin :: "runtime \<Rightarrow> url \<Rightarrow> string" where
  "url_origin rt u =
     (if protocol u \<in> set [''http:'', ''https:'', ''ws:'', ''wss:'', ''ftp:'']
      then protocol u @ ''//'' @ url_host u
      else if protocol u = ''blob:'' \<and> pathname u \<noteq> [] then
        (case rt_parseUrl rt (pathname u) of
           Some inner \<Rightarrow>
             if protocol inner = ''http:'' \<or> protocol inner = ''https:''
             then protocol inner @ ''//'' @ url_host inner
             else ''null''
         | None \<Rightarrow> ''null'')
      else ''null'')"

definition buildMirrorPath :: "string \<Rightarrow> url \<Rightarrow> string" where
  "buildMirrorPath slug u =
     (let path = (if pathname u = ''/'' then [] else pathname u)
      in ''/m/'' @ encodeURIComponent slug @ path @ search u)"

text \<open>\<^verbatim>\<open>maybeRewriteUrl\<close>; \<^const>\<open>None\<close> is \<^verbatim>\<open>undefined\<close>.\<close>

definition maybeRewriteUrl :: "runtime \<Rightarrow> string option \<Rightarrow> url \<Rightarrow> url \<Rightarrow> string \<Rightarrow> string option" where
  "maybeRewriteUrl rt raw baseUrl targetOrigin' slug =
     (case raw of
        None \<Rightarrow> None
      | Some r \<Rightarrow>
          if r = [] then Some r
          else
            let v = trimWs r in
            if v = [] then Some r
            else if startsWith v ''#'' \<or> startsWith v ''data:'' \<or> startsWith v ''mailto:'' \<or>
                    startsWith v ''tel:'' \<or> startsWith v ''javascript:''
            then Some r
            else
              (case rt_resolveUrl rt v baseUrl of
                 None \<Rightarrow> Some r
               | Some resolved \<Rightarrow>
                   if url_origin rt resolved \<noteq> url_origin rt targetOrigin' then Some r
                   else Some (buildMirrorPath slug resolved)))"

text \<open>
  \<^verbatim>\<open>const [urlPart, descriptor] = item.split(/\s+/, 2)\<close>: the text before the first run of
  white space, and the text between that run and the next one (\<^verbatim>\<open>undefined\<close> when the item
  has no white space).
\<close>

fun takeWord :: "string \<Rightarrow> string" where
  "takeWord [] = []"
| "takeWord (c # cs) = (if leadingSpace (c # cs) = 0 then c # takeWord cs else [])"

fun dropWord :: "string \<Rightarrow> string" where
  "dropWord [] = []"
| "dropWord (c # cs) = (if leadingSpace (c # cs) = 0 then dropWord cs else c # cs)"

definition urlPartOf :: "string \<Rightarrow> string" where
  "urlPartOf item = takeWord item"

definition descriptorOf :: "string \<Rightarrow> string option" where
  "descriptorOf item =
     (let rest = dropWord item
      in if rest = [] then None
         else Some (takeWord (trimStartWs rest)))"

text \<open>\<^verbatim>\<open>parts.join(sep)\<close>.\<close>

fun join_with :: "string \<Rightarrow> string list \<Rightarrow> string" where
  "join_with sep [] = []"
| "join_with sep [p] = p"
| "join_with sep (p # q # ps) = p @ sep @ join_with sep (q # ps)"

definition rewriteSrcset :: "runtime \<Rightarrow> string option \<Rightarrow> url \<Rightarrow> url \<Rightarrow> string \<Rightarrow> string option" where
  "rewriteSrcset rt raw baseUrl targetOrigin' slug =
     (case raw of
        None \<Rightarrow> None
      | Some r \<Rightarrow>
          if r = [] then Some r
          else
            let parts = filter (\<lambda>item. item \<noteq> []) (map trimWs (split_on CHR '','' r));
                rewritten =
                  map (\<lambda>item.
                         let urlPart = urlPartOf item;
                             descriptor = descriptorOf item;
                             nxt = (case maybeRewriteUrl rt (Some urlPart) baseUrl targetOrigin' slug of
                                      Some n \<Rightarrow> n
                                    | None \<Rightarrow> urlPart)
                         in (case descriptor of
                               Some d \<Rightarrow> if d \<noteq> [] then nxt @ '' '' @ d else nxt
                             | None \<Rightarrow> nxt))
                      parts
            in Some (join_with '', '' rewritten))"

definition attrSelectors :: "(string \<times> string list) list" where
  "attrSelectors =
     [(''a'', [''href'']),
      (''link'', [''href'']),
      (''script'', [''src'']),
      (''img'', [''src'']),
      (''img'', [''srcset'']),
      (''source'', [''src'', ''srcset'']),
      (''video'', [''src'', ''poster'']),
      (''audio'', [''src'']),
      (''iframe'', [''src'']),
      (''form'', [''action''])]"

text \<open>
  The body of the inner loop for one attribute of one element: \<^verbatim>\<open>$(el).attr(attr)\<close> reads
  the attribute, \<^verbatim>\<open>$(el).attr(attr, next)\<close> overwrites it in place.
\<close>

definition rewriteAttr :: "runtime \<Rightarrow> url \<Rightarrow> url \<Rightarrow> string \<Rightarrow> string \<Rightarrow> attribs \<Rightarrow> attribs" where
  "rewriteAttr rt baseUrl targetOrigin' slug attr attrs =
     (case map_of attrs attr of
        None \<Rightarrow> attrs
      | Some current \<Rightarrow>
          if current = [] then attrs
          else if attr = ''srcset'' then
            (case rewriteSrcset rt (Some current) baseUrl targetOrigin' slug of
               Some nxt \<Rightarrow> if nxt \<noteq> [] then AList.update attr nxt attrs else attrs
             | None \<Rightarrow> attrs)
          else
            (case maybeRewriteUrl rt (Some current) baseUrl targetOrigin' slug of
               Some nxt \<Rightarrow> if nxt \<noteq> [] then AList.update attr nxt attrs else attrs
             | None \<Rightarrow> attrs))"

text \<open>
  \<^verbatim>\<open>$(selector).each(...)\<close> for a tag selector: the callback runs on every element of that
  tag, anywhere in the tree, and here it only changes the element's attributes.
\<close>

primrec eachElement :: "string \<Rightarrow> (attribs \<Rightarrow> attribs) \<Rightarrow> node \<Rightarrow> node" where
  "eachElement sel f (Element t attrs cs) =
     Element t (if t = sel then f attrs else attrs) (map (eachElement sel f) cs)"
| "eachElement sel f (Text s) = Text s"

definition rewriteSelector ::
  "runtime \<Rightarrow> url \<Rightarrow> url \<Rightarrow> string \<Rightarrow> string \<times> string list \<Rightarrow> node list \<Rightarrow> node list" where
  "rewriteSelector rt baseUrl targetOrigin' slug entry doc =
     map (eachElement (fst entry) (fold (rewriteAttr rt baseUrl targetOrigin' slug) (snd entry))) doc"

text \<open>\<^verbatim>\<open>$(selector).remove()\<close> for a tag selector.\<close>

primrec hasTag :: "string \<Rightarrow> node \<Rightarrow> bool" where
  "hasTag sel (Element t attrs cs) = (t = sel)"
| "hasTag sel (Text s) = False"

primrec removeBelow :: "string \<Rightarrow> node \<Rightarrow> node" where
  "removeBelow sel (Element t attrs cs) =
     Element t attrs (filter (\<lambda>c. \<not> hasTag sel c) (map (removeBelow sel) cs))"
| "removeBelow sel (Text s) = Text s"

definition removeElements :: "string \<Rightarrow> node list \<Rightarrow> node list" where
  "removeElements sel doc = filter (\<lambda>c. \<not> hasTag sel c) (map (removeBelow sel) doc)"

text \<open>
  The selection \<^verbatim>\<open>$('head meta[name="robots"]')\<close>: the \<^verbatim>\<open>meta\<close> elements whose \<^verbatim>\<open>name\<close> is
  \<^verbatim>\<open>robots\<close> among the descendants of the \<^verbatim>\<open>head\<close> elements.
\<close>

primrec descendants :: "node \<Rightarrow> node list" where
  "descendants (Element t attrs cs) = concat (map (\<lambda>c. c # descendants c) cs)"
| "descendants (Text s) = []"

definition allNodes :: "node list \<Rightarrow> node list" where
  "allNodes doc = concat (map (\<lambda>c. c # descendants c) doc)"

primrec isRobotsMeta :: "node \<Rightarrow> bool" where
  "isRobotsMeta (Element t attrs cs) = (t = ''meta'' \<and> map_of attrs ''name'' = Some ''robots'')"
| "isRobotsMeta (Text s) = False"

definition headMetaRobots :: "node list \<Rightarrow> node list" where
  "headMetaRobots doc =
     filter isRobotsMeta (concat (map descendants (filter (hasTag ''head'') (allNodes doc))))"

text \<open>\<^verbatim>\<open>$(selector).prepend(new)\<close> for a tag selector.\<close>

primrec prependIn :: "string \<Rightarrow> node \<Rightarrow> node \<Rightarrow> node" where
  "prependIn sel new (Element t attrs cs) =
     Element t attrs ((if t = sel then [new] else []) @ map (prependIn sel new) cs)"
| "prependIn sel new (Text s) = Text s"

definition robotsMeta :: node where
  "robotsMeta = Element ''meta'' [(''name'', ''robots''), (''content'', ''noindex,nofollow'')] []"

text \<open>The tree between \<^verbatim>\<open>load(html)\<close> and \<^verbatim>\<open>$.html()\<close>.\<close>

definition rewriteTree :: "runtime \<Rightarrow> node list \<Rightarrow> url \<Rightarrow> url \<Rightarrow> string \<Rightarrow> node list" where
  "rewriteTree rt doc baseUrl targetOrigin' slug =
     (let doc1 = removeElements ''base'' doc;
          doc2 = fold (rewriteSelector rt baseUrl targetOrigin' slug) attrSelectors doc1
      in if headMetaRobots doc2 = [] then map (prependIn ''head'' robotsMeta) doc2 else doc2)"

definition rewriteHtmlDocument ::
  "cheerio \<Rightarrow> runtime \<Rightarrow> string \<Rightarrow> url \<Rightarrow> url \<Rightarrow> string \<Rightarrow> string" where
  "rewriteHtmlDocument ch rt html baseUrl targetOrigin' slug =
     ch_html ch (rewriteTree rt (ch_load ch html) baseUrl targetOrigin' slug)"

section \<open>Notions used in the statements\<close>

text \<open>
  A chain of \<open>n\<close> validated redirects that starts at \<open>u\<close> at time \<open>t\<close>: \<open>u\<close> passes the guard
  and the matcher, the request to \<open>u\<close> is answered by a redirect whose target parses,
  the target passes the guard and the matcher, and a chain of \<open>n - 1\<close> redirects starts at
  the target. The times are those at which the loop asks the resolver and the server.
\<close>

fun redirectChain ::
  "runtime \<Rightarrow> network \<Rightarrow> config \<Rightarrow> allowlist_entry list \<Rightarrow> string \<Rightarrow> (string \<rightharpoonup> string)
     \<Rightarrow> nat \<Rightarrow> url \<Rightarrow> nat \<Rightarrow> bool" where
  "redirectChain rt nw cfg allowlist method hdrs 0 u t = True"
| "redirectChain rt nw cfg allowlist method hdrs (Suc n) u t =
     (assertSafeUrl (rt_isIPv6 rt) (net_lookup nw t) u (MIRROR_ENABLE_HTTP cfg) = Inr () \<and>
      allowlist_match allowlist u \<noteq> None \<and>
      (case net_fetch nw (t + 2) method hdrs u of
         Inl e \<Rightarrow> False
       | Inr resp \<Rightarrow>
          (case redirectLocation resp of
             None \<Rightarrow> False
           | Some loc \<Rightarrow>
              (case rt_resolveUrl rt loc u of
                 None \<Rightarrow> False
               | Some next \<Rightarrow>
                  assertSafeUrl (rt_isIPv6 rt) (net_lookup nw (t + 3)) next (MIRROR_ENABLE_HTTP cfg) = Inr () \<and>
                  allowlist_match allowlist next \<noteq> None \<and>
                  redirectChain rt nw cfg allowlist method hdrs n next (t + 5)))))"

text \<open>
  Every request a trace records from time \<open>t0\<close> on comes right after an evaluation of the
  guard and an allowlist match on the URL requested, and both succeed: the guard, asked at
  the time of its entry in the trace, returns normally, and the matcher finds an entry.
\<close>

definition validatedFetches ::
  "runtime \<Rightarrow> network \<Rightarrow> config \<Rightarrow> allowlist_entry list \<Rightarrow> nat \<Rightarrow> net_event list \<Rightarrow> bool" where
  "validatedFetches rt nw cfg allowlist t0 tr =
     (\<forall>pre v post. tr = pre @ FetchEv v # post \<and> t0 \<le> length pre \<longrightarrow>
        (\<exists>before. pre = before @ [GuardEv v (Inr ()), MatchEv v True] \<and> t0 \<le> length before \<and>
           assertSafeUrl (rt_isIPv6 rt) (net_lookup nw (length before)) v (MIRROR_ENABLE_HTTP cfg) = Inr () \<and>
           allowlist_match allowlist v \<noteq> None))"

text \<open>
  A directory that holds no file the other does not hold with the same content, and the
  entry \<^verbatim>\<open>prune\<close> collects for a metadata file.
\<close>

definition subdir :: "directory \<Rightarrow> directory \<Rightarrow> bool" where
  "subdir fs' fs = (\<forall>n. map_of fs' n = None \<or> map_of fs' n = map_of fs n)"

definition itemOf :: "string \<Rightarrow> cache_meta \<Rightarrow> prune_item" where
  "itemOf file meta =
     \<lparr>item_metaPath = file, item_bodyPath = meta_bodyFile meta,
      item_cachedAt = meta_cachedAt meta, item_size = meta_size meta\<rparr>"

text \<open>
  The elements of a tree, as pairs of tag and attributes, and the attributes the table
  \<^const>\<open>attrSelectors\<close> names for a tag, in the order in which the loops reach them.
\<close>

primrec elementsBelow :: "node \<Rightarrow> (string \<times> attribs) list" where
  "elementsBelow (Element t attrs cs) = (t, attrs) # concat (map elementsBelow cs)"
| "elementsBelow (Text s) = []"

definition elementsOf :: "node list \<Rightarrow> (string \<times> attribs) list" where
  "elementsOf doc = concat (map elementsBelow doc)"

definition targets :: "string \<Rightarrow> string list" where
  "targets t = concat (map snd (filter (\<lambda>entry. fst entry = t) attrSelectors))"

section \<open>Example inputs\<close>

text \<open>
  Concrete inputs at which the theorems below are instantiated. The example runtime parses
  two absolute URLs, and resolves a path-absolute reference without query (\<^verbatim>\<open>/a/b\<close>)
  against a base the way the URL parser does: same scheme, host and port, the reference as
  path, no query.
\<close>

definition example_url :: url where
  "example_url =
     \<lparr>protocol = ''https:'', username = [], password = [], hostname = ''example.com'',
      port = [], pathname = ''/foo'', search = []\<rparr>"

definition loopback_url :: url where
  "loopback_url =
     \<lparr>protocol = ''https:'', username = [], password = [], hostname = ''127.0.0.1'',
      port = [], pathname = ''/'', search = []\<rparr>"

definition example_runtime :: runtime where
  "example_runtime =
     \<lparr>rt_parseUrl = (\<lambda>raw. if raw = ''https://example.com/foo'' then Some example_url
                           else if raw = ''https://127.0.0.1/'' then Some loopback_url
                           else None),
      rt_resolveUrl = (\<lambda>v base. if startsWith v ''/'' \<and> \<not> startsWith v ''//'' \<and>
                                      CHR ''?'' \<notin> set v \<and> CHR ''#'' \<notin> set v
                                   then Some (base\<lparr>pathname := v, search := []\<rparr>) else None),
      rt_isIPv6 = (\<lambda>_. False)\<rparr>"

definition example_allowlist :: "allowlist_entry list" where
  "example_allowlist =
     [\<lparr>entry_id = ''example'', entry_host = ''example.com'', allowSubdomains = False,
       schemes = [''https''], enabled = True, label = None\<rparr>]"

definition example_config :: config where
  "example_config =
     \<lparr>MIRROR_ENABLE_HTTP = False, MIRROR_MAX_HTML_BYTES = 5242880,
      MIRROR_MAX_BINARY_BYTES = 26214400\<rparr>"

definition example_lookup :: "string \<Rightarrow> error + string list" where
  "example_lookup host = Inr [''93.184.216.34'']"

definition example_draws :: draws where
  "example_draws =
     \<lparr>draw_now = ''2026-01-01T00:00:00.000Z'', draw_slug = ''a1b2c3'',
      draw_mirror = ''0011223344556677'', draw_event = ''8899aabbccddeeff''\<rparr>"

definition example_draws' :: draws where
  "example_draws' =
     \<lparr>draw_now = ''2026-01-01T00:00:01.000Z'', draw_slug = ''d4e5f6'',
      draw_mirror = ''1011121314151617'', draw_event = ''18191a1b1c1d1e1f''\<rparr>"

text \<open>An upstream that answers every request with a redirect to \<^verbatim>\<open>/next\<close>.\<close>

definition example_network :: network where
  "example_network =
     \<lparr>net_lookup = (\<lambda>t host. Inr [''93.184.216.34'']),
      net_fetch = (\<lambda>t method hdrs u.
         Inr \<lparr>resp_status = 302, resp_headers = [(''location'', ''/next'')], resp_body = []\<rparr>)\<rparr>"

definition example_response :: response where
  "example_response =
     \<lparr>resp_status = 200,
      resp_headers = [(''content-type'', ''text/html''), (''content-length'', ''999''),
                      (''set-cookie'', ''sid=1''), (''connection'', ''keep-alive''),
                      (''etag'', ''abc''), (''x-powered-by'', ''demo'')],
      resp_body = ''<p>hi</p>''\<rparr>"

text \<open>
  A network like the example one, except that a server at \<^verbatim>\<open>127.0.0.1\<close> would answer with
  the example page instead of a redirect.
\<close>

definition loopback_network :: network where
  "loopback_network =
     example_network\<lparr>net_fetch := (\<lambda>t method hdrs u.
        if hostname u = ''127.0.0.1'' then Inr example_response
        else net_fetch example_network t method hdrs u)\<rparr>"

text \<open>A network whose resolver answers with no address at all.\<close>

definition silent_dns_network :: network where
  "silent_dns_network =
     \<lparr>net_lookup = (\<lambda>t host. Inr []),
      net_fetch = (\<lambda>t method hdrs u. Inl ''fetch failed'')\<rparr>"

text \<open>A registry in which \<^verbatim>\<open>https://example.com\<close> is already mirrored.\<close>

definition example_mirror :: mirror_record where
  "example_mirror =
     \<lparr>mirror_id = ''mir_0011223344556677'', mirror_slug = ''example-com'',
      targetOrigin = ''https://example.com'', createdAt = ''2026-01-01T00:00:00.000Z'',
      updatedAt = ''2026-01-01T00:00:00.000Z'', lastPath = Some ''/foo'', disabled = False\<rparr>"

definition registered_db :: mirror_db where
  "registered_db = \<lparr>mirrors = [example_mirror], events = []\<rparr>"

definition next_url :: url where
  "next_url = example_url\<lparr>pathname := ''/next'', search := []\<rparr>"

text \<open>
  A cache of at most 10 bytes with a TTL of 100 seconds, holding two entries of 4 bytes,
  and the entry a third \<^verbatim>\<open>set\<close> writes. The codec knows these three metadata texts.
\<close>

definition example_metaA :: cache_meta where
  "example_metaA =
     \<lparr>meta_cacheKey = ''k1'', meta_slug = ''a'', meta_cachedAt = 1000,
      meta_contentType = ''text/plain'', meta_status = 200, meta_headers = [],
      meta_bodyFile = ''a_k1.bin'', meta_size = 4\<rparr>"

definition example_metaB :: cache_meta where
  "example_metaB =
     \<lparr>meta_cacheKey = ''k2'', meta_slug = ''b'', meta_cachedAt = 2000,
      meta_contentType = ''text/plain'', meta_status = 200, meta_headers = [],
      meta_bodyFile = ''b_k2.bin'', meta_size = 4\<rparr>"

definition example_metaC :: cache_meta where
  "example_metaC =
     \<lparr>meta_cacheKey = ''k3'', meta_slug = ''c'', meta_cachedAt = 3000,
      meta_contentType = ''text/plain'', meta_status = 200, meta_headers = [],
      meta_bodyFile = ''c_k3.bin'', meta_size = 4\<rparr>"

definition example_cache :: file_cache where
  "example_cache =
     \<lparr>cache_ttlSeconds = 100, cache_maxBytes = 10,
      cache_parse = (\<lambda>raw. if raw = ''A'' then Some example_metaA
                           else if raw = ''B'' then Some example_metaB
                           else if raw = ''C'' then Some example_metaC
                           else None),
      cache_stringify = (\<lambda>meta. if meta = example_metaA then ''A''
                                else if meta = example_metaB then ''B''
                                else if meta = example_metaC then ''C''
                                else ''?'')\<rparr>"

definition example_dir :: directory where
  "example_dir =
     [(''a_k1.json'', ''A''), (''a_k1.bin'', ''aaaa''), (''b_k2.json'', ''B''), (''b_k2.bin'', ''bbbb'')]"

definition example_cached :: cached_response where
  "example_cached =
     \<lparr>cr_status = 200, cr_headers = [], cr_body = ''cccc'', cr_contentType = ''text/plain'',
      cr_cachedAt = 3000\<rparr>"

definition empty_db :: mirror_db where
  "empty_db = \<lparr>mirrors = [], events = []\<rparr>"

text \<open>The example directory after the body and the metadata of a third entry were written.\<close>

definition example_dir2 :: directory where
  "example_dir2 = example_dir @ [(''c_k3.bin'', ''cccc''), (''c_k3.json'', ''C'')]"

text \<open>
  A serialiser and a parser for the example pages: the serialiser writes a tree out, the
  parser knows the pages of the examples and reads each back into its tree. The second link
  of the page whose attributes the rewriter leaves alone starts with a no-break space
  (U+00A0, the bytes \<^verbatim>\<open>C2 A0\<close>).
\<close>

definition voidTags :: "string list" where
  "voidTags = [''base'', ''img'', ''link'', ''meta'', ''source'']"

primrec example_serialize :: "node \<Rightarrow> string" where
  "example_serialize (Element t attrs cs) =
     ''<'' @ t @ concat (map (\<lambda>kv. '' '' @ fst kv @ ''='' @ [CHR 0x22] @ snd kv @ [CHR 0x22]) attrs) @ ''>'' @
     concat (map example_serialize cs) @
     (if t \<in> set voidTags then [] else ''</'' @ t @ ''>'')"
| "example_serialize (Text s) = s"

definition example_html :: "node list \<Rightarrow> string" where
  "example_html doc = concat (map example_serialize doc)"

definition example_target :: url where
  "example_target = example_url\<lparr>pathname := ''/''\<rparr>"

definition example_tree :: "node list" where
  "example_tree =
     [Element ''html'' []
        [Element ''head'' [] [],
         Element ''body'' [] [Element ''a'' [(''href'', ''/x'')] [Text ''x'']]]]"

definition example_tree1 :: "node list" where
  "example_tree1 =
     [Element ''html'' []
        [Element ''head'' [] [robotsMeta],
         Element ''body'' [] [Element ''a'' [(''href'', ''/m/example-com/x'')] [Text ''x'']]]]"

definition example_tree2 :: "node list" where
  "example_tree2 =
     [Element ''html'' []
        [Element ''head'' [] [robotsMeta],
         Element ''body'' []
           [Element ''a'' [(''href'', ''/m/example-com/m/example-com/x'')] [Text ''x'']]]]"

definition stable_tree :: "node list" where
  "stable_tree =
     [Element ''html'' []
        [Element ''head'' [] [Element ''base'' [(''href'', ''https://example.com/'')] []],
         Element ''body'' []
           [Element ''a'' [(''href'', ''#top'')] [Text ''top''],
            Element ''a'' [(''href'', CHR 0xC2 # CHR 0xA0 # ''#end'')] [Text ''end''],
            Element ''a'' [(''href'', ''mailto:a@example.com'')] [Text ''mail''],
            Element ''img'' [(''src'', ''data:image/png;base64,AAAA''), (''srcset'', ''#a 1x,#b 2x'')] [],
            Element ''p'' [(''class'', ''/x'')] [Text ''text'']]]]"

definition stable_tree1 :: "node list" where
  "stable_tree1 =
     [Element ''html'' []
        [Element ''head'' [] [robotsMeta],
         Element ''body'' []
           [Element ''a'' [(''href'', ''#top'')] [Text ''top''],
            Element ''a'' [(''href'', CHR 0xC2 # CHR 0xA0 # ''#end'')] [Text ''end''],
            Element ''a'' [(''href'', ''mailto:a@example.com'')] [Text ''mail''],
            Element ''img'' [(''src'', ''data:image/png;base64,AAAA''), (''srcset'', ''#a 1x, #b 2x'')] [],
            Element ''p'' [(''class'', ''/x'')] [Text ''text'']]]]"

definition example_trees :: "node list list" where
  "example_trees = [example_tree, example_tree1, example_tree2, stable_tree, stable_tree1]"

definition example_cheerio :: cheerio where
  "example_cheerio =
     \<lparr>ch_load = (\<lambda>html. case find (\<lambda>doc. example_html doc = html) example_trees of
                          Some doc \<Rightarrow> doc
                        | None \<Rightarrow> []),
      ch_html = example_html\<rparr>"


chapter \<open>Properties\<close>

section \<open>Allowlist matching ignores everything but scheme and host name\<close>

text \<open>
  Claim C10. \<^verbatim>\<open>AllowlistStore.match\<close> reads only \<^verbatim>\<open>url.protocol\<close> and \<^verbatim>\<open>url.hostname\<close>:
  replacing the port, the path, the query and the credentials of a URL by any other values
  does not change the entry it returns (or that it returns none). In particular a URL whose
  host is allowlisted is allowed on every port.
\<close>

theorem allowlist_match_only_scheme_and_hostname:
  "allowlist_match entries
     (u\<lparr>port := p, pathname := pa, search := q, username := un, password := pw\<rparr>)
   = allowlist_match entries u
   \<and> isAllowed entries (u\<lparr>port := p\<rparr>) = isAllowed entries u"
  by (simp add: allowlist_match_def isAllowed_def)

section \<open>The SSRF guard rejects private, loopback, link-local and metadata hosts\<close>

subsection \<open>Decimal octets and dotted addresses\<close>

lemma digitChar_isDigit: "n < 10 \<Longrightarrow> isDigit (digitChar n)"
proof -
  assume "n < 10"
  then have "n \<in> {0,1,2,3,4,5,6,7,8,9}" by auto
  then show ?thesis by (auto simp: digitChar_def isDigit_def)
qed

lemma digitVal_digitChar: "n < 10 \<Longrightarrow> digitVal (digitChar n) = n"
proof -
  assume "n < 10"
  then have "n \<in> {0,1,2,3,4,5,6,7,8,9}" by auto
  then show ?thesis by (auto simp: digitChar_def digitVal_def)
qed

lemma digitChar_zero_iff: "n < 10 \<Longrightarrow> digitChar n = CHR ''0'' \<longleftrightarrow> n = 0"
proof -
  assume "n < 10"
  then have "n \<in> {0,1,2,3,4,5,6,7,8,9}" by auto
  then show ?thesis by (auto simp: digitChar_def)
qed

lemma showNat_digits: "list_all isDigit (showNat n)"
proof (induction n rule: showNat.induct)
  case (1 n)
  show ?case
  proof (cases "n < 10")
    case True
    then show ?thesis by (subst showNat.simps) (simp add: digitChar_isDigit)
  next
    case False
    with 1 show ?thesis by (subst showNat.simps) (simp add: digitChar_isDigit)
  qed
qed

lemma showNat_nonempty: "showNat n \<noteq> []"
  by (subst showNat.simps) simp

lemma decimalValue_snoc: "decimalValue (s @ [c]) = 10 * decimalValue s + digitVal c"
  by (simp add: decimalValue_def)

lemma decimalValue_showNat: "decimalValue (showNat n) = n"
proof (induction n rule: showNat.induct)
  case (1 n)
  show ?case
  proof (cases "n < 10")
    case True
    then show ?thesis
      by (subst showNat.simps) (simp add: decimalValue_def digitVal_digitChar)
  next
    case False
    with 1 show ?thesis
      by (subst showNat.simps) (simp add: decimalValue_snoc digitVal_digitChar)
  qed
qed

lemma showNat_lt10: "n < 10 \<Longrightarrow> showNat n = [digitChar n]"
  by (subst showNat.simps) simp

lemma showNat_ge10: "10 \<le> n \<Longrightarrow> showNat n = showNat (n div 10) @ [digitChar (n mod 10)]"
  by (subst showNat.simps) simp

lemma length_showNat: "n < 1000 \<Longrightarrow> length (showNat n) \<le> 3"
proof -
  assume n: "n < 1000"
  show ?thesis
  proof (cases "n < 10")
    case True then show ?thesis by (simp add: showNat_lt10)
  next
    case False
    then have a: "showNat n = showNat (n div 10) @ [digitChar (n mod 10)]" by (simp add: showNat_ge10)
    show ?thesis
    proof (cases "n div 10 < 10")
      case True then show ?thesis using a by (simp add: showNat_lt10)
    next
      case False
      then have b: "showNat (n div 10) = showNat (n div 10 div 10) @ [digitChar (n div 10 mod 10)]"
        by (simp add: showNat_ge10)
      from n have "n div 10 div 10 < 10" by simp
      then show ?thesis using a b by (simp add: showNat_lt10)
    qed
  qed
qed

lemma hd_showNat: "0 < n \<Longrightarrow> hd (showNat n) \<noteq> CHR ''0''"
proof (induction n rule: showNat.induct)
  case (1 n)
  show ?case
  proof (cases "n < 10")
    case True
    with 1 show ?thesis by (simp add: showNat_lt10 digitChar_zero_iff)
  next
    case False
    then have "0 < n div 10" by simp
    with 1 False have "hd (showNat (n div 10)) \<noteq> CHR ''0''" by simp
    with False show ?thesis by (simp add: showNat_ge10 showNat_nonempty)
  qed
qed

lemma isV4Seg_showNat: "n < 256 \<Longrightarrow> isV4Seg (showNat n)"
proof -
  assume n: "n < 256"
  have "length (showNat n) = 1 \<or> hd (showNat n) \<noteq> CHR ''0''"
  proof (cases "n = 0")
    case True then show ?thesis by (simp add: showNat_lt10)
  next
    case False then show ?thesis by (simp add: hd_showNat)
  qed
  with n show ?thesis
    by (simp add: isV4Seg_def showNat_nonempty length_showNat showNat_digits decimalValue_showNat)
qed

lemma split_on_no_sep: "sep \<notin> set s \<Longrightarrow> split_on sep s = [s]"
  by (induction s) auto

lemma split_on_append_sep:
  "sep \<notin> set s \<Longrightarrow> split_on sep (s @ sep # rest) = s # split_on sep rest"
  by (induction s) auto

lemma not_isDigit_dot: "\<not> isDigit (CHR ''.'')"
  by (simp add: isDigit_def)

lemma isDigit_not_dot: "list_all isDigit s \<Longrightarrow> CHR ''.'' \<notin> set s"
  using not_isDigit_dot by (auto simp: list_all_iff)

lemma split_dotted:
  "split_on (CHR ''.'') (dotted a b c d) = [showNat a, showNat b, showNat c, showNat d]"
  by (simp add: dotted_def split_on_append_sep split_on_no_sep isDigit_not_dot showNat_digits)

lemma isIPv4_dotted:
  "a < 256 \<Longrightarrow> b < 256 \<Longrightarrow> c < 256 \<Longrightarrow> d < 256 \<Longrightarrow> isIPv4 (dotted a b c d)"
  by (simp add: isIPv4_def split_dotted isV4Seg_showNat)



lemma toUint32_toInt32_add: "toUint32 (toInt32 x + y) = (x + y) mod 2 ^ 32"
proof -
  define M :: int where "M = 2 ^ 32"
  define H :: int where "H = 2 ^ 31"
  have "toInt32 x + y = (x + H) mod M + (y - H)"
    unfolding toInt32_def M_def H_def by (simp only: diff_add_eq diff_conv_add_uminus add.assoc add.commute add.left_commute)
  then have "(toInt32 x + y) mod M = ((x + H) mod M + (y - H)) mod M"
    by (simp only:)
  also have "\<dots> = ((x + H) + (y - H)) mod M"
    by (rule mod_add_left_eq)
  also have "(x + H) + (y - H) = x + y"
    by (simp only: add_diff_eq diff_add_eq add_diff_cancel_right' add.assoc add.commute add.left_commute)
  finally show ?thesis
    unfolding toUint32_def M_def .
qed

lemma toInt32_small: "0 \<le> x \<Longrightarrow> x < 2 ^ 31 \<Longrightarrow> toInt32 x = x"
  by (simp add: toInt32_def)

lemma shiftLeft8_small: "0 \<le> x \<Longrightarrow> x < 2 ^ 23 \<Longrightarrow> shiftLeft8 x = x * 256"
proof -
  assume x: "0 \<le> x" "x < 2 ^ 23"
  then have "toInt32 x = x" by (simp add: toInt32_small)
  moreover from x have "toInt32 (x * 256) = x * 256" by (simp add: toInt32_small)
  ultimately show ?thesis by (simp add: shiftLeft8_def)
qed

lemma ipToInt_dotted:
  assumes "a < 256" "b < 256" "c < 256" "d < 256"
  shows "ipToInt (dotted a b c d) = int (ipv4Value a b c d)"
proof -
  define x1 where "x1 = int a"
  define x2 where "x2 = x1 * 256 + int b"
  define x3 where "x3 = x2 * 256 + int c"
  have b1: "0 \<le> x1" "x1 < 256" using assms by (simp_all add: x1_def)
  have b2: "0 \<le> x2" "x2 < 65536" using assms b1 by (simp_all add: x2_def)
  have b3: "0 \<le> x3" "x3 < 16777216" using assms b2 by (simp_all add: x3_def)
  have s0: "shiftLeft8 0 = 0" by (simp add: shiftLeft8_small)
  have s1: "shiftLeft8 x1 = x1 * 256" using b1 by (simp add: shiftLeft8_small)
  have s2: "shiftLeft8 x2 = x2 * 256" using b2 by (simp add: shiftLeft8_small)
  have t3: "toInt32 x3 = x3" using b3 by (simp add: toInt32_small)
  have "ipToInt (dotted a b c d) = toUint32 (shiftLeft8 x3 + int d)"
    by (simp add: ipToInt_def split_dotted decimalValue_showNat s0 s1 [unfolded x1_def]
        s2 [unfolded x2_def x1_def] x3_def x2_def x1_def)
  also have "\<dots> = toUint32 (toInt32 (x3 * 256) + int d)"
    by (simp add: shiftLeft8_def t3)
  also have "\<dots> = (x3 * 256 + int d) mod 2 ^ 32"
    by (rule toUint32_toInt32_add)
  also have "\<dots> = x3 * 256 + int d"
    using assms b3 by simp
  finally show ?thesis by (simp add: ipv4Value_def x3_def x2_def x1_def algebra_simps)
qed

lemma IPV4_PRIVATE_RANGES_eval:
  "IPV4_PRIVATE_RANGES =
    [(0, 16777215), (167772160, 184549375), (1681915904, 1686110207),
     (2130706432, 2147483647), (2851995648, 2852061183), (2886729728, 2887778303),
     (3221225472, 3221225727), (3221225984, 3221226239), (3232235520, 3232301055),
     (3323068416, 3323199487), (3325256704, 3325256959), (3405803776, 3405804031),
     (3758096384, 4294967295)]"
  by (simp add: IPV4_PRIVATE_RANGES_def ipToInt_def toUint32_def shiftLeft8_def toInt32_def
      decimalValue_def digitVal_def)

lemma ipv4Value_bound:
  "a < 256 \<Longrightarrow> b < 256 \<Longrightarrow> c < 256 \<Longrightarrow> d < 256 \<Longrightarrow> ipv4Value a b c d < 4294967296"
  by (simp add: ipv4Value_def)


lemma div_eq_bounds:
  fixes v k q :: nat
  assumes "v div k = q" "0 < k"
  shows "q * k \<le> v \<and> v < q * k + k"
proof -
  have "v div k * k \<le> v" by simp
  moreover have "v < k + v div k * k" using assms(2) by (rule dividend_less_div_times)
  ultimately show ?thesis using assms(1) by (simp add: add.commute)
qed

lemma spec_blocked_in_ranges:
  assumes "spec_blocked_ipv4 v" "v < 4294967296"
  shows "list_ex (\<lambda>(start, end). int v \<ge> start \<and> int v \<le> end) IPV4_PRIVATE_RANGES"
proof -
  from assms(1) consider
      "v div 16777216 = 0" | "v div 16777216 = 10" | "v div 4194304 = 401"
    | "v div 16777216 = 127" | "v div 65536 = 43518" | "v div 1048576 = 2753"
    | "v div 256 = 12582912" | "v div 256 = 12582914" | "v div 65536 = 49320"
    | "v div 131072 = 25353" | "v div 256 = 12989284" | "v div 256 = 13303921"
    | "3758096384 \<le> v"
    by (auto simp add: spec_blocked_ipv4_def spec_blocked_cidrs_def inCidr_def ipv4Value_def)
  then show ?thesis
  proof cases
    case 1 from div_eq_bounds [OF this] show ?thesis by (simp add: IPV4_PRIVATE_RANGES_eval)
  next
    case 2 from div_eq_bounds [OF this] show ?thesis by (simp add: IPV4_PRIVATE_RANGES_eval)
  next
    case 3 from div_eq_bounds [OF this] show ?thesis by (simp add: IPV4_PRIVATE_RANGES_eval)
  next
    case 4 from div_eq_bounds [OF this] show ?thesis by (simp add: IPV4_PRIVATE_RANGES_eval)
  next
    case 5 from div_eq_bounds [OF this] show ?thesis by (simp add: IPV4_PRIVATE_RANGES_eval)
  next
    case 6 from div_eq_bounds [OF this] show ?thesis by (simp add: IPV4_PRIVATE_RANGES_eval)
  next
    case 7 from div_eq_bounds [OF this] show ?thesis by (simp add: IPV4_PRIVATE_RANGES_eval)
  next
    case 8 from div_eq_bounds [OF this] show ?thesis by (simp add: IPV4_PRIVATE_RANGES_eval)
  next
    case 9 from div_eq_bounds [OF this] show ?thesis by (simp add: IPV4_PRIVATE_RANGES_eval)
  next
    case 10 from div_eq_bounds [OF this] show ?thesis by (simp add: IPV4_PRIVATE_RANGES_eval)
  next
    case 11 from div_eq_bounds [OF this] show ?thesis by (simp add: IPV4_PRIVATE_RANGES_eval)
  next
    case 12 from div_eq_bounds [OF this] show ?thesis by (simp add: IPV4_PRIVATE_RANGES_eval)
  next
    case 13 with assms(2) show ?thesis by (simp add: IPV4_PRIVATE_RANGES_eval)
  qed
qed

lemma isPrivateIpv4_dotted:
  assumes "a < 256" "b < 256" "c < 256" "d < 256" "spec_blocked_ipv4 (ipv4Value a b c d)"
  shows "isPrivateIpv4 (dotted a b c d)"
  using spec_blocked_in_ranges [OF assms(5) ipv4Value_bound [OF assms(1-4)]]
  by (simp add: isPrivateIpv4_def ipToInt_dotted assms(1-4))


lemma endsWith_append: "endsWith (x @ p) p"
  by (simp add: endsWith_def)

lemma trimStart_append:
  "p \<noteq> [] \<Longrightarrow> \<not> isSpace (hd p) \<Longrightarrow> \<exists>s'. trimStart (sub @ p) = s' @ p"
proof -
  assume p: "p \<noteq> []" "\<not> isSpace (hd p)"
  then have "dropWhile isSpace p = p" by (cases p) simp_all
  then show ?thesis
    by (cases "\<forall>x\<in>set sub. isSpace x") (auto simp add: trimStart_def dropWhile_append)
qed

lemma trimEnd_append:
  "p \<noteq> [] \<Longrightarrow> \<not> isSpace (last p) \<Longrightarrow> trimEnd (s @ p) = s @ p"
proof -
  assume p: "p \<noteq> []" "\<not> isSpace (last p)"
  then have "rev p \<noteq> []" "\<not> isSpace (hd (rev p))" by (simp_all add: hd_rev)
  then have "dropWhile isSpace (rev p @ rev s) = rev p @ rev s"
    by (cases "rev p") simp_all
  then show ?thesis by (simp add: trimEnd_def)
qed

lemma trim_append:
  "p \<noteq> [] \<Longrightarrow> \<not> isSpace (hd p) \<Longrightarrow> \<not> isSpace (last p) \<Longrightarrow> \<exists>s'. trim (sub @ p) = s' @ p"
  using trimStart_append [of p sub] by (auto simp add: trim_def trimEnd_append)

lemma trim_id: "s \<noteq> [] \<Longrightarrow> \<not> isSpace (hd s) \<Longrightarrow> \<not> isSpace (last s) \<Longrightarrow> trim s = s"
  using trimEnd_append [of s "[]"] by (cases s) (simp_all add: trim_def trimStart_def)

lemma toLowerCase_append: "toLowerCase (a @ b) = toLowerCase a @ toLowerCase b"
  by (simp add: toLowerCase_def)

lemma toLowerCase_id: "(\<And>c. c \<in> set s \<Longrightarrow> toLowerChar c = c) \<Longrightarrow> toLowerCase s = s"
  by (simp add: toLowerCase_def map_idI)

lemma toLowerCase_dot_localhost: "toLowerCase ''.localhost'' = ''.localhost''"
  by (simp add: toLowerCase_def toLowerChar_def)

lemma isDigit_cases:
  "isDigit c \<Longrightarrow> c = CHR ''0'' \<or> c = CHR ''1'' \<or> c = CHR ''2'' \<or> c = CHR ''3'' \<or> c = CHR ''4'' \<or>
     c = CHR ''5'' \<or> c = CHR ''6'' \<or> c = CHR ''7'' \<or> c = CHR ''8'' \<or> c = CHR ''9''"
  by (simp add: isDigit_def)

lemma toLowerChar_digit: "isDigit c \<Longrightarrow> toLowerChar c = c"
  by (drule isDigit_cases) (elim disjE; simp add: toLowerChar_def)

lemma isSpace_digit: "isDigit c \<Longrightarrow> \<not> isSpace c"
  by (drule isDigit_cases) (elim disjE; simp add: isSpace_def)

lemma toLowerChar_dot: "toLowerChar (CHR ''.'') = CHR ''.''"
  by (simp add: toLowerChar_def)

lemma dotted_chars: "c \<in> set (dotted a b c' d) \<Longrightarrow> isDigit c \<or> c = CHR ''.''"
  using showNat_digits [of a] showNat_digits [of b] showNat_digits [of c'] showNat_digits [of d]
  by (auto simp add: dotted_def list_all_iff)

lemma toLowerCase_dotted: "toLowerCase (dotted a b c d) = dotted a b c d"
  by (rule toLowerCase_id) (auto dest: dotted_chars simp add: toLowerChar_digit toLowerChar_dot)

lemma hd_showNat_digit: "isDigit (hd (showNat n))"
  using showNat_digits [of n] showNat_nonempty [of n] by (cases "showNat n") simp_all

lemma last_showNat_digit: "isDigit (last (showNat n))"
  using showNat_digits [of n] showNat_nonempty [of n] by (simp add: list_all_iff)

lemma dotted_nonempty: "dotted a b c d \<noteq> []"
  by (simp add: dotted_def showNat_nonempty)

lemma hd_dotted: "isDigit (hd (dotted a b c d))"
  using hd_showNat_digit [of a] by (simp add: dotted_def showNat_nonempty)

lemma last_dotted: "isDigit (last (dotted a b c d))"
  using last_showNat_digit [of d] by (simp add: dotted_def showNat_nonempty)

lemma trim_dotted: "trim (dotted a b c d) = dotted a b c d"
  by (simp add: trim_id dotted_nonempty isSpace_digit hd_dotted last_dotted)

lemma assertSafeHostname_localhost_sub:
  "assertSafeHostname isIPv6 (sub @ ''.localhost'') = Inl ''ssrf_blocked''"
proof -
  obtain s' where "trim (sub @ ''.localhost'') = s' @ ''.localhost''"
    using trim_append [of "''.localhost''" sub] by (auto simp add: isSpace_def)
  then have h: "toLowerCase (trim (sub @ ''.localhost'')) = toLowerCase s' @ ''.localhost''"
    by (simp only: toLowerCase_append toLowerCase_dot_localhost)
  have "endsWith (toLowerCase s' @ ''.localhost'') ''.localhost''" by (rule endsWith_append)
  then show ?thesis
    by (simp add: assertSafeHostname_def h Let_def)
qed

lemma assertSafeHostname_dotted:
  assumes "a < 256" "b < 256" "c < 256" "d < 256" "spec_blocked_ipv4 (ipv4Value a b c d)"
  shows "assertSafeHostname isIPv6 (dotted a b c d) = Inl ''ssrf_blocked''"
proof -
  let ?h = "dotted a b c d"
  have norm: "toLowerCase (trim ?h) = ?h" by (simp add: trim_dotted toLowerCase_dotted)
  have ip: "net_isIP isIPv6 ?h = 4" using assms(1-4) by (simp add: net_isIP_def isIPv4_dotted)
  have "assertSafeIp isIPv6 ?h = Inl ''ssrf_blocked''"
    using isPrivateIpv4_dotted [OF assms] by (simp add: assertSafeIp_def ip)
  then show ?thesis
    by (simp add: assertSafeHostname_def norm ip dotted_nonempty Let_def)
qed


text \<open>
  Claim C2. A URL with scheme \<^verbatim>\<open>https\<close>, no user name and no password, whose host name is
  \<^verbatim>\<open>localhost\<close>, ends in \<^verbatim>\<open>.localhost\<close>, is \<^verbatim>\<open>metadata.google.internal\<close> or
  \<^verbatim>\<open>169.254.169.254\<close>, or is the dotted-decimal form of an IPv4 address in one of the
  blocked ranges of the specification, makes \<^verbatim>\<open>assertSafeUrl\<close> fail with
  \<^verbatim>\<open>ssrf_blocked\<close>, whatever the resolver would answer and whatever \<^verbatim>\<open>allowHttp\<close> is.
\<close>

theorem assertSafeUrl_blocks_private_hosts:
  assumes "protocol u = ''https:''" and "username u = []" and "password u = []"
    and "hostname u = ''localhost''
       \<or> (\<exists>sub. hostname u = sub @ ''.localhost'')
       \<or> hostname u = ''metadata.google.internal''
       \<or> hostname u = ''169.254.169.254''
       \<or> (\<exists>a b c d. a < 256 \<and> b < 256 \<and> c < 256 \<and> d < 256
             \<and> hostname u = dotted a b c d \<and> spec_blocked_ipv4 (ipv4Value a b c d))"
  shows "assertSafeUrl isIPv6 lookup u allowHttp = Inl ''ssrf_blocked''"
proof -
  have "assertSafeHostname isIPv6 (hostname u) = Inl ''ssrf_blocked''"
    using assms(4)
  proof (elim disjE exE conjE)
    assume "hostname u = ''localhost''"
    then show ?thesis
      by (simp add: assertSafeHostname_def trim_def trimStart_def trimEnd_def isSpace_def
          toLowerCase_def toLowerChar_def)
  next
    fix sub assume "hostname u = sub @ ''.localhost''"
    then show ?thesis by (simp only: assertSafeHostname_localhost_sub)
  next
    assume "hostname u = ''metadata.google.internal''"
    then show ?thesis
      by (simp add: assertSafeHostname_def trim_def trimStart_def trimEnd_def isSpace_def
          toLowerCase_def toLowerChar_def endsWith_def)
  next
    assume "hostname u = ''169.254.169.254''"
    then show ?thesis
      by (simp add: assertSafeHostname_def trim_def trimStart_def trimEnd_def isSpace_def
          toLowerCase_def toLowerChar_def endsWith_def)
  next
    fix a b c d :: nat
    assume "a < 256" "b < 256" "c < 256" "d < 256" "hostname u = dotted a b c d"
      "spec_blocked_ipv4 (ipv4Value a b c d)"
    then show ?thesis by (simp add: assertSafeHostname_dotted)
  qed
  then show ?thesis
    using assms(1-3) by (simp add: assertSafeUrl_def assertSafeResolvedHost_def)
qed

theorem assertSafeUrl_blocks_private_hosts_witness:
  "dotted 100 64 0 1 = ''100.64.0.1'' \<and> spec_blocked_ipv4 (ipv4Value 100 64 0 1) \<and>
   assertSafeUrl (\<lambda>_. False) (\<lambda>_. Inr [''93.184.216.34''])
     \<lparr>protocol = ''https:'', username = [], password = [], hostname = ''100.64.0.1'',
      port = [], pathname = ''/'', search = []\<rparr> False = Inl ''ssrf_blocked''"
proof -
  let ?u = "\<lparr>protocol = ''https:'', username = [], password = [], hostname = ''100.64.0.1'',
      port = [], pathname = ''/'', search = []\<rparr>"
  have d: "dotted 100 64 0 1 = ''100.64.0.1''"
    by (simp add: dotted_def showNat.simps digitChar_def)
  have b: "spec_blocked_ipv4 (ipv4Value 100 64 0 1)"
    by (simp add: spec_blocked_ipv4_def spec_blocked_cidrs_def inCidr_def ipv4Value_def)
  have ex: "\<exists>a b c d. a < 256 \<and> b < 256 \<and> c < 256 \<and> d < 256
      \<and> hostname ?u = dotted a b c d \<and> spec_blocked_ipv4 (ipv4Value a b c d)"
    using d b by (intro exI [of _ 100] exI [of _ 64] exI [of _ 0] exI [of _ 1]) simp
  have "assertSafeUrl (\<lambda>_. False) (\<lambda>_. Inr [''93.184.216.34'']) ?u False = Inl ''ssrf_blocked''"
    by (rule assertSafeUrl_blocks_private_hosts
          [OF _ _ _ disjI2 [OF disjI2 [OF disjI2 [OF disjI2 [OF ex]]]]]) simp_all
  with d b show ?thesis by simp
qed


section \<open>The file cache\<close>

lemma map_of_removePair:
  "map_of (removePair fs m b) n = (if n = m \<or> n = b then None else map_of fs n)"
  by (simp add: removePair_def AList.delete_conv)

lemma map_of_delete_eq: "map_of (AList.delete k fs) n = (if n = k then None else map_of fs n)"
  by (simp add: AList.delete_conv)

lemma distinct_removePair: "distinct (map fst fs) \<Longrightarrow> distinct (map fst (removePair fs m b))"
  by (simp add: removePair_def AList.distinct_delete)

lemma map_of_removeItems:
  "map_of (removeItems fs items) n
     = (if \<exists>it \<in> set items. n = item_metaPath it \<or> n = item_bodyPath it then None else map_of fs n)"
  unfolding removeItems_def
  by (induction items arbitrary: fs) (auto simp add: map_of_removePair)

lemma distinct_removeItems: "distinct (map fst fs) \<Longrightarrow> distinct (map fst (removeItems fs items))"
  unfolding removeItems_def
  by (induction items arbitrary: fs) (auto simp add: distinct_removePair)

lemma subdir_refl: "subdir fs fs"
  by (simp add: subdir_def)

lemma subdir_trans: "subdir a b \<Longrightarrow> subdir b c \<Longrightarrow> subdir a c"
  unfolding subdir_def by metis

lemma subdir_delete: "subdir (AList.delete k fs) fs"
  by (simp add: subdir_def map_of_delete_eq)

lemma subdir_removePair: "subdir (removePair fs m b) fs"
  by (simp add: subdir_def map_of_removePair)

lemma pruneScan_step:
  "\<exists>fs' metas'.
      pruneScan c now (file # rest) fs metas = pruneScan c now rest fs' metas'
    \<and> subdir fs' fs
    \<and> (\<exists>more. metas' = metas @ more)
    \<and> (\<forall>raw. map_of fs' file = Some raw \<longrightarrow> endsWith file ''.json'' \<longrightarrow>
          (\<exists>meta. cache_parse c raw = Some meta \<and> itemOf file meta \<in> set metas'))
    \<and> (distinct (map fst fs) \<longrightarrow> distinct (map fst fs'))"
proof (cases "endsWith file ''.json''")
  case False
  then have "pruneScan c now (file # rest) fs metas = pruneScan c now rest fs metas" by simp
  then show ?thesis
    using False by (intro exI [of _ fs] exI [of _ metas]) (simp add: subdir_refl)
next
  case json: True
  show ?thesis
  proof (cases "map_of fs file")
    case None
    then have "pruneScan c now (file # rest) fs metas = pruneScan c now rest (AList.delete file fs) metas"
      using json by simp
    then show ?thesis
      by (intro exI [of _ "AList.delete file fs"] exI [of _ metas])
         (simp add: subdir_delete map_of_delete_eq AList.distinct_delete)
  next
    case (Some raw)
    show ?thesis
    proof (cases "cache_parse c raw")
      case None
      then have "pruneScan c now (file # rest) fs metas = pruneScan c now rest (AList.delete file fs) metas"
        using json Some by simp
      then show ?thesis
        by (intro exI [of _ "AList.delete file fs"] exI [of _ metas])
           (simp add: subdir_delete map_of_delete_eq AList.distinct_delete)
    next
      case meta: (Some meta)
      show ?thesis
      proof (cases "map_of fs (meta_bodyFile meta) = None")
        case True
        then have "pruneScan c now (file # rest) fs metas
            = pruneScan c now rest (AList.delete file fs) metas"
          using json Some meta by simp
        then show ?thesis
          by (intro exI [of _ "AList.delete file fs"] exI [of _ metas])
             (simp add: subdir_delete map_of_delete_eq AList.distinct_delete)
      next
        case False
        then obtain bdy where body: "map_of fs (meta_bodyFile meta) = Some bdy" by auto
        show ?thesis
        proof (cases "isExpired c now (meta_cachedAt meta)")
          case True
          then have "pruneScan c now (file # rest) fs metas
              = pruneScan c now rest (removePair fs file (meta_bodyFile meta)) metas"
            using json Some meta body by simp
          then show ?thesis
            by (intro exI [of _ "removePair fs file (meta_bodyFile meta)"] exI [of _ metas])
               (simp add: subdir_removePair map_of_removePair distinct_removePair)
        next
          case False
          then have "pruneScan c now (file # rest) fs metas
              = pruneScan c now rest fs (metas @ [itemOf file meta])"
            using json Some meta body by (simp add: itemOf_def)
          then show ?thesis
            using Some meta
            by (intro exI [of _ fs] exI [of _ "metas @ [itemOf file meta]"])
               (simp add: subdir_refl)
        qed
      qed
    qed
  qed
qed

lemma pruneScan_post:
  "pruneScan c now names fs metas = (fs1, metas1) \<Longrightarrow>
     subdir fs1 fs
   \<and> (\<exists>more. metas1 = metas @ more)
   \<and> (\<forall>n raw. n \<in> set names \<longrightarrow> map_of fs1 n = Some raw \<longrightarrow> endsWith n ''.json'' \<longrightarrow>
         (\<exists>meta. cache_parse c raw = Some meta \<and> itemOf n meta \<in> set metas1))
   \<and> (distinct (map fst fs) \<longrightarrow> distinct (map fst fs1))"
proof (induction names arbitrary: fs metas)
  case Nil
  then show ?case by (simp add: subdir_refl)
next
  case (Cons nm rest)
  from pruneScan_step [of c now nm rest fs metas] obtain fs' metas' where
    step: "pruneScan c now (nm # rest) fs metas = pruneScan c now rest fs' metas'"
    and sub: "subdir fs' fs"
    and more: "\<exists>more. metas' = metas @ more"
    and hd: "\<forall>raw. map_of fs' nm = Some raw \<longrightarrow> endsWith nm ''.json'' \<longrightarrow>
          (\<exists>meta. cache_parse c raw = Some meta \<and> itemOf nm meta \<in> set metas')"
    and dist: "distinct (map fst fs) \<longrightarrow> distinct (map fst fs')"
    by blast
  from Cons.prems step have "pruneScan c now rest fs' metas' = (fs1, metas1)" by simp
  from Cons.IH [OF this] have
    sub1: "subdir fs1 fs'"
    and more1: "\<exists>more. metas1 = metas' @ more"
    and tl: "\<forall>n raw. n \<in> set rest \<longrightarrow> map_of fs1 n = Some raw \<longrightarrow> endsWith n ''.json'' \<longrightarrow>
         (\<exists>meta. cache_parse c raw = Some meta \<and> itemOf n meta \<in> set metas1)"
    and dist1: "distinct (map fst fs') \<longrightarrow> distinct (map fst fs1)"
    by blast+
  have a: "subdir fs1 fs" using sub1 sub by (rule subdir_trans)
  have b: "\<exists>more. metas1 = metas @ more" using more more1 by auto
  have c: "\<forall>n raw. n \<in> set (nm # rest) \<longrightarrow> map_of fs1 n = Some raw \<longrightarrow> endsWith n ''.json'' \<longrightarrow>
         (\<exists>meta. cache_parse c raw = Some meta \<and> itemOf n meta \<in> set metas1)"
  proof (intro allI impI)
    fix n raw
    assume n: "n \<in> set (nm # rest)" and r: "map_of fs1 n = Some raw" and j: "endsWith n ''.json''"
    show "\<exists>meta. cache_parse c raw = Some meta \<and> itemOf n meta \<in> set metas1"
    proof (cases "n \<in> set rest")
      case True
      with tl r j show ?thesis by blast
    next
      case False
      with n have nf: "n = nm" by simp
      from sub1 r have "map_of fs' n = Some raw" unfolding subdir_def by (metis option.distinct(1))
      with hd nf j obtain meta where "cache_parse c raw = Some meta" "itemOf nm meta \<in> set metas'"
        by blast
      with more1 nf show ?thesis by auto
    qed
  qed
  from a b c dist dist1 show ?case by blast
qed

lemma sum_list_le_injection:
  fixes w :: "'a \<times> 'b \<Rightarrow> nat" and sz :: "'c \<Rightarrow> nat"
  assumes "distinct (map fst xs)"
    and "\<And>x. x \<in> set xs \<Longrightarrow> w x = 0 \<or> (\<exists>it \<in> set ys. key it = fst x \<and> sz it = w x)"
  shows "sum_list (map w xs) \<le> sum_list (map sz ys)"
  using assms
proof (induction xs arbitrary: ys)
  case Nil
  then show ?case by simp
next
  case (Cons x xs)
  have d: "distinct (map fst xs)" and nx: "fst x \<notin> fst ` set xs" using Cons.prems(1) by simp_all
  show ?case
  proof (cases "w x = 0")
    case True
    have "sum_list (map w xs) \<le> sum_list (map sz ys)"
      using d Cons.prems(2) by (intro Cons.IH) simp_all
    with True show ?thesis by simp
  next
    case False
    with Cons.prems(2) [of x] obtain it where it: "it \<in> set ys" "key it = fst x" "sz it = w x"
      by auto
    then obtain ys1 ys2 where ys: "ys = ys1 @ it # ys2" by (meson split_list)
    have "sum_list (map w xs) \<le> sum_list (map sz (ys1 @ ys2))"
    proof (rule Cons.IH [OF d])
      fix x' assume x': "x' \<in> set xs"
      then have ne: "fst x' \<noteq> fst x" using nx by (metis imageI)
      from Cons.prems(2) [of x'] x'
      have "w x' = 0 \<or> (\<exists>it' \<in> set ys. key it' = fst x' \<and> sz it' = w x')" by simp
      then show "w x' = 0 \<or> (\<exists>it' \<in> set (ys1 @ ys2). key it' = fst x' \<and> sz it' = w x')"
      proof
        assume "w x' = 0" then show ?thesis by simp
      next
        assume "\<exists>it' \<in> set ys. key it' = fst x' \<and> sz it' = w x'"
        then obtain it' where i': "it' \<in> set ys" "key it' = fst x'" "sz it' = w x'" by blast
        with ne it(2) have "it' \<noteq> it" by auto
        with i'(1) ys have "it' \<in> set (ys1 @ ys2)" by auto
        with i' show ?thesis by blast
      qed
    qed
    with it(3) ys show ?thesis by simp
  qed
qed

lemma evictLoop_char:
  "tot = (\<Sum>it\<leftarrow>items. int (item_size it)) \<Longrightarrow>
   \<exists>k\<le>length items.
      evictLoop c items tot fs = removeItems fs (take k items)
    \<and> (\<Sum>it\<leftarrow>drop k items. int (item_size it)) \<le> int (cache_maxBytes c)
    \<and> (\<forall>j<k. (\<Sum>it\<leftarrow>drop j items. int (item_size it)) > int (cache_maxBytes c))"
proof (induction items arbitrary: tot fs)
  case Nil
  then show ?case by (simp add: removeItems_def)
next
  case (Cons item rest)
  show ?case
  proof (cases "tot \<le> int (cache_maxBytes c)")
    case True
    with Cons.prems show ?thesis
      by (intro exI [of _ 0]) (simp add: removeItems_def)
  next
    case False
    have "tot - int (item_size item) = (\<Sum>it\<leftarrow>rest. int (item_size it))"
      using Cons.prems by simp
    from Cons.IH [OF this, of "removePair fs (item_metaPath item) (item_bodyPath item)"]
    obtain k where k: "k \<le> length rest"
      "evictLoop c rest (tot - int (item_size item)) (removePair fs (item_metaPath item) (item_bodyPath item))
         = removeItems (removePair fs (item_metaPath item) (item_bodyPath item)) (take k rest)"
      "(\<Sum>it\<leftarrow>drop k rest. int (item_size it)) \<le> int (cache_maxBytes c)"
      "\<forall>j<k. (\<Sum>it\<leftarrow>drop j rest. int (item_size it)) > int (cache_maxBytes c)"
      by blast
    have "\<forall>j<Suc k. (\<Sum>it\<leftarrow>drop j (item # rest). int (item_size it)) > int (cache_maxBytes c)"
    proof (intro allI impI)
      fix j assume "j < Suc k"
      show "(\<Sum>it\<leftarrow>drop j (item # rest). int (item_size it)) > int (cache_maxBytes c)"
      proof (cases j)
        case 0
        with False Cons.prems show ?thesis by simp
      next
        case (Suc j')
        with \<open>j < Suc k\<close> k(4) show ?thesis by simp
      qed
    qed
    with False k(1,2,3) show ?thesis
      by (intro exI [of _ "Suc k"]) (simp add: removeItems_def)
  qed
qed


lemma int_sum_sizes: "int (\<Sum>it\<leftarrow>items. item_size it) = (\<Sum>it\<leftarrow>items. int (item_size it))"
  by (induction items) simp_all

lemma sum_sizes_sort_key:
  "(\<Sum>it\<leftarrow>sort_key item_cachedAt metas. int (item_size it)) = (\<Sum>it\<leftarrow>metas. int (item_size it))"
proof -
  have "mset (sort_key item_cachedAt metas) = mset metas" by simp
  then have "mset (map (\<lambda>it. int (item_size it)) (sort_key item_cachedAt metas))
      = mset (map (\<lambda>it. int (item_size it)) metas)"
    by (metis mset_map)
  then show ?thesis by (metis sum_mset_sum_list)
qed

lemma prune_char:
  assumes "pruneScan c now (map fst fs) fs [] = (fs1, metas)"
  shows "\<exists>k\<le>length metas.
      prune c now fs = removeItems fs1 (take k (sort_key item_cachedAt metas))
    \<and> (\<Sum>it\<leftarrow>drop k (sort_key item_cachedAt metas). int (item_size it)) \<le> int (cache_maxBytes c)
    \<and> (\<forall>j<k. (\<Sum>it\<leftarrow>drop j (sort_key item_cachedAt metas). int (item_size it))
               > int (cache_maxBytes c))"
proof (cases "(\<Sum>it\<leftarrow>metas. int (item_size it)) \<le> int (cache_maxBytes c)")
  case True
  then have "prune c now fs = fs1" using assms by (simp add: prune_def)
  with True show ?thesis
    by (intro exI [of _ 0]) (simp add: removeItems_def sum_sizes_sort_key)
next
  case False
  then have p: "prune c now fs
      = evictLoop c (sort_key item_cachedAt metas) (\<Sum>it\<leftarrow>metas. int (item_size it)) fs1"
    using assms by (simp add: prune_def)
  from evictLoop_char [OF sum_sizes_sort_key [symmetric], of metas c fs1] p
  show ?thesis by simp
qed

lemma live_le_items:
  assumes "distinct (map fst fs')"
    and "\<And>n raw meta. (n, raw) \<in> set fs' \<Longrightarrow> endsWith n ''.json'' \<Longrightarrow> cache_parse c raw = Some meta
           \<Longrightarrow> itemOf n meta \<in> set ys"
  shows "liveBytes c now fs' \<le> (\<Sum>it\<leftarrow>ys. item_size it)"
  unfolding liveBytes_def
proof (rule sum_list_le_injection [where key = item_metaPath, OF assms(1)])
  fix x assume x: "x \<in> set fs'"
  obtain n raw where nr: "x = (n, raw)" by (cases x)
  show "entryBytes c now fs' x = 0
      \<or> (\<exists>it\<in>set ys. item_metaPath it = fst x \<and> item_size it = entryBytes c now fs' x)"
  proof (cases "entryBytes c now fs' x = 0")
    case True then show ?thesis by simp
  next
    case False
    then obtain meta where m: "cache_parse c raw = Some meta" "endsWith n ''.json''"
      "entryBytes c now fs' x = meta_size meta"
      unfolding nr entryBytes_def by (auto split: option.splits if_splits)
    from assms(2) [OF x [unfolded nr] m(2) m(1)] have "itemOf n meta \<in> set ys" .
    moreover have "item_metaPath (itemOf n meta) = fst x" "item_size (itemOf n meta) = entryBytes c now fs' x"
      using m(3) by (simp_all add: itemOf_def nr)
    ultimately show ?thesis by blast
  qed
qed

lemma prune_live_bound:
  assumes dist: "distinct (map fst fs)"
  shows "liveBytes c now (prune c now fs) \<le> cache_maxBytes c"
proof -
  obtain fs1 metas where scan: "pruneScan c now (map fst fs) fs [] = (fs1, metas)" by force
  let ?sorted = "sort_key item_cachedAt metas"
  from pruneScan_post [OF scan] dist have
    sub: "subdir fs1 fs"
    and post: "\<forall>n raw. n \<in> set (map fst fs) \<longrightarrow> map_of fs1 n = Some raw \<longrightarrow> endsWith n ''.json'' \<longrightarrow>
         (\<exists>meta. cache_parse c raw = Some meta \<and> itemOf n meta \<in> set metas)"
    and d1: "distinct (map fst fs1)"
    by blast+
  from prune_char [OF scan] obtain k where
    fin: "prune c now fs = removeItems fs1 (take k ?sorted)"
    and bound: "(\<Sum>it\<leftarrow>drop k ?sorted. int (item_size it)) \<le> int (cache_maxBytes c)"
    by blast
  have dfin: "distinct (map fst (removeItems fs1 (take k ?sorted)))"
    using d1 by (rule distinct_removeItems)
  have "liveBytes c now (removeItems fs1 (take k ?sorted)) \<le> (\<Sum>it\<leftarrow>drop k ?sorted. item_size it)"
  proof (rule live_le_items [OF dfin])
    fix n raw meta
    assume mem: "(n, raw) \<in> set (removeItems fs1 (take k ?sorted))"
      and json: "endsWith n ''.json''" and parse: "cache_parse c raw = Some meta"
    from mem dfin have "map_of (removeItems fs1 (take k ?sorted)) n = Some raw" by simp
    then have kept: "\<not> (\<exists>it \<in> set (take k ?sorted). n = item_metaPath it \<or> n = item_bodyPath it)"
      and in1: "map_of fs1 n = Some raw"
      by (simp_all add: map_of_removeItems split: if_splits)
    from sub in1 have "map_of fs n = Some raw" unfolding subdir_def by (metis option.distinct(1))
    then have "n \<in> set (map fst fs)" by (metis map_of_SomeD fst_conv image_eqI set_map)
    with post in1 json obtain meta' where "cache_parse c raw = Some meta'" "itemOf n meta' \<in> set metas"
      by blast
    with parse have "itemOf n meta \<in> set ?sorted" by simp
    then have "itemOf n meta \<in> set (take k ?sorted) \<union> set (drop k ?sorted)"
      by (metis append_take_drop_id set_append)
    moreover have "itemOf n meta \<notin> set (take k ?sorted)"
      using kept by (auto simp add: itemOf_def)
    ultimately show "itemOf n meta \<in> set (drop k ?sorted)" by blast
  qed
  moreover have "int (\<Sum>it\<leftarrow>drop k ?sorted. item_size it) = (\<Sum>it\<leftarrow>drop k ?sorted. int (item_size it))"
    by (rule int_sum_sizes)
  ultimately show ?thesis using bound fin by simp
qed

lemma distinct_update_fs: "distinct (map fst fs) \<Longrightarrow> distinct (map fst (AList.update k v fs))"
  by (simp add: AList.distinct_update)

text \<open>
  Claim C6. In a directory whose file names are distinct, a \<^verbatim>\<open>set\<close> that is not refused
  leaves at most \<^verbatim>\<open>maxBytes\<close> bytes in live entries (metadata that parses, is not expired
  and has its body file). And when the entries that survive the first loop of \<^verbatim>\<open>prune\<close>
  exceed \<^verbatim>\<open>maxBytes\<close>, \<^verbatim>\<open>prune\<close> removes exactly the first \<open>k\<close> of them in ascending
  \<^verbatim>\<open>cachedAt\<close> order, where \<open>k\<close> is the least number whose removal brings the total to at
  most \<^verbatim>\<open>maxBytes\<close>.
\<close>

theorem cache_set_keeps_live_bytes_within_maxBytes:
  "(distinct (map fst fs) \<and> \<not> real (length (cr_body response)) > real (cache_maxBytes c) / 2 \<longrightarrow>
      liveBytes c now (cache_set c now fs slug key response) \<le> cache_maxBytes c)
   \<and> (\<forall>fs1 metas. pruneScan c now (map fst fs) fs [] = (fs1, metas)
         \<and> (\<Sum>it\<leftarrow>metas. int (item_size it)) > int (cache_maxBytes c) \<longrightarrow>
        (\<exists>k\<le>length metas.
            prune c now fs = removeItems fs1 (take k (sort_key item_cachedAt metas))
          \<and> sorted (map item_cachedAt (sort_key item_cachedAt metas))
          \<and> (\<Sum>it\<leftarrow>drop k (sort_key item_cachedAt metas). int (item_size it))
               \<le> int (cache_maxBytes c)
          \<and> (\<forall>j<k. (\<Sum>it\<leftarrow>drop j (sort_key item_cachedAt metas). int (item_size it))
                     > int (cache_maxBytes c))))"
proof (intro conjI impI allI)
  assume h: "distinct (map fst fs) \<and> \<not> real (length (cr_body response)) > real (cache_maxBytes c) / 2"
  let ?fs2 = "AList.update (metaPath slug key)
      (cache_stringify c \<lparr>meta_cacheKey = key, meta_slug = slug, meta_cachedAt = now,
                       meta_contentType = cr_contentType response,
                       meta_status = cr_status response, meta_headers = cr_headers response,
                       meta_bodyFile = safeSlug slug @ ''_'' @ key @ ''.bin'',
                       meta_size = length (cr_body response)\<rparr>)
      (AList.update (safeSlug slug @ ''_'' @ key @ ''.bin'') (cr_body response) fs)"
  from h have "cache_set c now fs slug key response = prune c now ?fs2"
    by (simp add: cache_set_def Let_def)
  moreover from h have "distinct (map fst ?fs2)" by (simp add: distinct_update_fs)
  ultimately show "liveBytes c now (cache_set c now fs slug key response) \<le> cache_maxBytes c"
    by (simp add: prune_live_bound)
next
  fix fs1 metas
  assume "pruneScan c now (map fst fs) fs [] = (fs1, metas)
         \<and> (\<Sum>it\<leftarrow>metas. int (item_size it)) > int (cache_maxBytes c)"
  then have scan: "pruneScan c now (map fst fs) fs [] = (fs1, metas)" by simp
  from prune_char [OF scan] obtain k where "k \<le> length metas"
    "prune c now fs = removeItems fs1 (take k (sort_key item_cachedAt metas))"
    "(\<Sum>it\<leftarrow>drop k (sort_key item_cachedAt metas). int (item_size it)) \<le> int (cache_maxBytes c)"
    "\<forall>j<k. (\<Sum>it\<leftarrow>drop j (sort_key item_cachedAt metas). int (item_size it))
               > int (cache_maxBytes c)"
    by blast
  then show "\<exists>k\<le>length metas.
            prune c now fs = removeItems fs1 (take k (sort_key item_cachedAt metas))
          \<and> sorted (map item_cachedAt (sort_key item_cachedAt metas))
          \<and> (\<Sum>it\<leftarrow>drop k (sort_key item_cachedAt metas). int (item_size it))
               \<le> int (cache_maxBytes c)
          \<and> (\<forall>j<k. (\<Sum>it\<leftarrow>drop j (sort_key item_cachedAt metas). int (item_size it))
                     > int (cache_maxBytes c))"
    by (intro exI [of _ k]) simp
qed

text \<open>
  Claim C7. \<^verbatim>\<open>get\<close> on an entry whose metadata parses and is older than the TTL misses and
  leaves the directory without the metadata file and without the body file the metadata
  names; on an entry whose metadata file is absent or does not parse, or whose body file is
  absent, it misses and leaves the directory without the metadata file, every other file
  as it was; otherwise it returns the stored status, headers and the content of the body
  file, and leaves the directory as it was.
\<close>

theorem cache_get_cases:
  "(map_of fs (metaPath slug key) = Some raw \<and> cache_parse c raw = Some meta
      \<and> isExpired c now (meta_cachedAt meta) \<longrightarrow>
      fst (cache_get c now fs slug key) = None
      \<and> (\<forall>n. map_of (snd (cache_get c now fs slug key)) n
               = (if n = metaPath slug key \<or> n = meta_bodyFile meta then None else map_of fs n)))
   \<and> ((map_of fs (metaPath slug key) = None
        \<or> (map_of fs (metaPath slug key) = Some raw \<and> cache_parse c raw = None)
        \<or> (map_of fs (metaPath slug key) = Some raw \<and> cache_parse c raw = Some meta
             \<and> \<not> isExpired c now (meta_cachedAt meta) \<and> map_of fs (meta_bodyFile meta) = None)) \<longrightarrow>
      fst (cache_get c now fs slug key) = None
      \<and> (\<forall>n. map_of (snd (cache_get c now fs slug key)) n
               = (if n = metaPath slug key then None else map_of fs n)))
   \<and> (map_of fs (metaPath slug key) = Some raw \<and> cache_parse c raw = Some meta
        \<and> \<not> isExpired c now (meta_cachedAt meta) \<and> map_of fs (meta_bodyFile meta) = Some body \<longrightarrow>
      cache_get c now fs slug key
        = (Some \<lparr>cr_status = meta_status meta, cr_headers = meta_headers meta, cr_body = body,
                 cr_contentType = meta_contentType meta, cr_cachedAt = meta_cachedAt meta\<rparr>, fs))"
  by (auto simp add: cache_get_def Let_def map_of_removePair map_of_delete_eq)

subsection \<open>The cache on the example directory\<close>

lemma example_paths:
  "metaPath ''a'' ''k1'' = ''a_k1.json''" "metaPath ''c'' ''k3'' = ''c_k3.json''"
  "safeSlug ''c'' = ''c''"
  by (simp_all add: metaPath_def safeSlug_def isSafeSlugChar_def Let_def)

lemma example_endsWith:
  "endsWith ''a_k1.json'' ''.json''" "\<not> endsWith ''a_k1.bin'' ''.json''"
  "endsWith ''b_k2.json'' ''.json''" "\<not> endsWith ''b_k2.bin'' ''.json''"
  "endsWith ''c_k3.json'' ''.json''" "\<not> endsWith ''c_k3.bin'' ''.json''"
  by (simp_all add: endsWith_def)

lemma example_not_expired:
  "\<not> isExpired example_cache 3000 1000" "\<not> isExpired example_cache 3000 2000"
  "\<not> isExpired example_cache 3000 3000" "isExpired example_cache 200000 1000"
  by (simp_all add: isExpired_def example_cache_def)

lemma example_parse:
  "cache_parse example_cache ''A'' = Some example_metaA"
  "cache_parse example_cache ''B'' = Some example_metaB"
  "cache_parse example_cache ''C'' = Some example_metaC"
  "cache_parse example_cache ''aaaa'' = None"
  by (simp_all add: example_cache_def)

lemma example_meta_fields:
  "meta_bodyFile example_metaA = ''a_k1.bin''" "meta_cachedAt example_metaA = 1000" "meta_size example_metaA = 4"
  "meta_bodyFile example_metaB = ''b_k2.bin''" "meta_cachedAt example_metaB = 2000" "meta_size example_metaB = 4"
  "meta_bodyFile example_metaC = ''c_k3.bin''" "meta_cachedAt example_metaC = 3000" "meta_size example_metaC = 4"
  by (simp_all add: example_metaA_def example_metaB_def example_metaC_def)

lemma example_scan:
  "pruneScan example_cache 3000 (map fst example_dir2) example_dir2 []
     = (example_dir2, [itemOf ''a_k1.json'' example_metaA, itemOf ''b_k2.json'' example_metaB,
                      itemOf ''c_k3.json'' example_metaC])"
  by (simp add: example_dir2_def example_dir_def example_endsWith example_parse example_meta_fields
      example_not_expired itemOf_def)

lemma example_set:
  "cache_set example_cache 3000 example_dir ''c'' ''k3'' example_cached
     = prune example_cache 3000 example_dir2"
proof -
  have m: "\<lparr>meta_cacheKey = ''k3'', meta_slug = ''c'', meta_cachedAt = 3000,
        meta_contentType = ''text/plain'', meta_status = 200, meta_headers = [],
        meta_bodyFile = ''c_k3.bin'', meta_size = Suc (Suc (Suc (Suc 0)))\<rparr> = example_metaC"
    by (simp add: example_metaC_def)
  have str: "cache_stringify example_cache example_metaC = ''C''"
    by (simp add: example_cache_def example_metaA_def example_metaB_def example_metaC_def)
  have big: "cache_maxBytes example_cache = 10" by (simp add: example_cache_def)
  show ?thesis
    by (simp add: cache_set_def example_paths example_cached_def Let_def example_dir2_def
        example_dir_def AList.update_def m str big)
qed

lemma example_sorted:
  "sort_key item_cachedAt [itemOf ''a_k1.json'' example_metaA, itemOf ''b_k2.json'' example_metaB,
                      itemOf ''c_k3.json'' example_metaC]
   = [itemOf ''a_k1.json'' example_metaA, itemOf ''b_k2.json'' example_metaB,
                      itemOf ''c_k3.json'' example_metaC]"
  by (simp add: itemOf_def example_meta_fields)

lemma example_prune:
  "prune example_cache 3000 example_dir2
     = [(''b_k2.json'', ''B''), (''b_k2.bin'', ''bbbb''), (''c_k3.bin'', ''cccc''), (''c_k3.json'', ''C'')]"
proof -
  have big: "cache_maxBytes example_cache = 10" by (simp add: example_cache_def)
  show ?thesis
    by (simp add: prune_def example_scan example_sorted)
       (simp add: itemOf_def example_meta_fields big removePair_def AList.delete_eq example_dir2_def
         example_dir_def)
qed

theorem cache_set_keeps_live_bytes_within_maxBytes_witness:
  "distinct (map fst example_dir)
   \<and> \<not> real (length (cr_body example_cached)) > real (cache_maxBytes example_cache) / 2
   \<and> cache_set example_cache 3000 example_dir ''c'' ''k3'' example_cached
       = [(''b_k2.json'', ''B''), (''b_k2.bin'', ''bbbb''), (''c_k3.bin'', ''cccc''), (''c_k3.json'', ''C'')]
   \<and> liveBytes example_cache 3000 (cache_set example_cache 3000 example_dir ''c'' ''k3'' example_cached)
       \<le> cache_maxBytes example_cache
   \<and> (\<exists>k\<le>3. prune example_cache 3000 (example_dir @ [(''c_k3.bin'', ''cccc''), (''c_k3.json'', ''C'')])
               = removeItems (example_dir @ [(''c_k3.bin'', ''cccc''), (''c_k3.json'', ''C'')])
                   (take k [itemOf ''a_k1.json'' example_metaA, itemOf ''b_k2.json'' example_metaB,
                            itemOf ''c_k3.json'' example_metaC]))"
proof -
  have d: "distinct (map fst example_dir)" by (simp add: example_dir_def)
  have r: "\<not> real (length (cr_body example_cached)) > real (cache_maxBytes example_cache) / 2"
    by (simp add: example_cached_def example_cache_def)
  note t = cache_set_keeps_live_bytes_within_maxBytes
  from t [where fs = example_dir and response = example_cached and c = example_cache
      and now = 3000 and slug = "''c''" and key = "''k3''"] d r
  have live: "liveBytes example_cache 3000
      (cache_set example_cache 3000 example_dir ''c'' ''k3'' example_cached)
       \<le> cache_maxBytes example_cache" by blast
  have over: "(\<Sum>it\<leftarrow>[itemOf ''a_k1.json'' example_metaA, itemOf ''b_k2.json'' example_metaB,
      itemOf ''c_k3.json'' example_metaC]. int (item_size it)) > int (cache_maxBytes example_cache)"
    by (simp add: itemOf_def example_meta_fields example_cache_def)
  from t [where fs = example_dir2 and response = example_cached and c = example_cache
      and now = 3000 and slug = "''c''" and key = "''k3''"] example_scan over
  have "\<exists>k\<le>length [itemOf ''a_k1.json'' example_metaA, itemOf ''b_k2.json'' example_metaB,
                      itemOf ''c_k3.json'' example_metaC].
      prune example_cache 3000 example_dir2
        = removeItems example_dir2
            (take k (sort_key item_cachedAt [itemOf ''a_k1.json'' example_metaA,
               itemOf ''b_k2.json'' example_metaB, itemOf ''c_k3.json'' example_metaC]))"
    by blast
  then have ex: "\<exists>k\<le>3. prune example_cache 3000 example_dir2
        = removeItems example_dir2
            (take k [itemOf ''a_k1.json'' example_metaA,
               itemOf ''b_k2.json'' example_metaB, itemOf ''c_k3.json'' example_metaC])"
    by (simp only: example_sorted) (simp add: numeral_3_eq_3)
  from d r live ex example_set example_prune show ?thesis
    by (simp add: example_dir2_def)
qed


theorem cache_get_cases_witness:
  "cache_get example_cache 3000 example_dir ''a'' ''k1''
     = (Some \<lparr>cr_status = 200, cr_headers = [], cr_body = ''aaaa'', cr_contentType = ''text/plain'',
              cr_cachedAt = 1000\<rparr>, example_dir)
   \<and> fst (cache_get example_cache 200000 example_dir ''a'' ''k1'') = None
   \<and> map_of (snd (cache_get example_cache 200000 example_dir ''a'' ''k1'')) ''a_k1.json'' = None
   \<and> map_of (snd (cache_get example_cache 200000 example_dir ''a'' ''k1'')) ''a_k1.bin'' = None
   \<and> map_of (snd (cache_get example_cache 200000 example_dir ''a'' ''k1'')) ''b_k2.bin'' = Some ''bbbb''
   \<and> fst (cache_get example_cache 3000 [(''a_k1.json'', ''A'')] ''a'' ''k1'') = None
   \<and> map_of (snd (cache_get example_cache 3000 [(''a_k1.json'', ''A'')] ''a'' ''k1'')) ''a_k1.json'' = None"
proof -
  have f: "map_of example_dir (metaPath ''a'' ''k1'') = Some ''A''"
    "map_of example_dir (meta_bodyFile example_metaA) = Some ''aaaa''"
    "map_of example_dir ''b_k2.bin'' = Some ''bbbb''"
    "map_of [(''a_k1.json'', ''A'')] (metaPath ''a'' ''k1'') = Some ''A''"
    "map_of [(''a_k1.json'', ''A'')] (meta_bodyFile example_metaA) = None"
    by (simp_all add: example_dir_def example_paths example_meta_fields)
  have m: "meta_status example_metaA = 200" "meta_headers example_metaA = []"
    "meta_contentType example_metaA = ''text/plain''"
    by (simp_all add: example_metaA_def)
  note hit = cache_get_cases [where fs = example_dir and slug = "''a''" and key = "''k1''"
      and raw = "''A''" and c = example_cache and meta = example_metaA and now = 3000
      and body = "''aaaa''"]
  note old = cache_get_cases [where fs = example_dir and slug = "''a''" and key = "''k1''"
      and raw = "''A''" and c = example_cache and meta = example_metaA and now = 200000
      and body = "''aaaa''"]
  note orphan = cache_get_cases [where fs = "[(''a_k1.json'', ''A'')]" and slug = "''a''"
      and key = "''k1''" and raw = "''A''" and c = example_cache and meta = example_metaA
      and now = 3000 and body = "''aaaa''"]
  from hit f example_parse example_not_expired example_meta_fields m
  have a: "cache_get example_cache 3000 example_dir ''a'' ''k1''
     = (Some \<lparr>cr_status = 200, cr_headers = [], cr_body = ''aaaa'', cr_contentType = ''text/plain'',
              cr_cachedAt = 1000\<rparr>, example_dir)" by simp
  from old f example_parse example_not_expired example_meta_fields
  have b: "fst (cache_get example_cache 200000 example_dir ''a'' ''k1'') = None
      \<and> (\<forall>n. map_of (snd (cache_get example_cache 200000 example_dir ''a'' ''k1'')) n
               = (if n = metaPath ''a'' ''k1'' \<or> n = meta_bodyFile example_metaA then None
                  else map_of example_dir n))" by simp
  from orphan f example_parse example_not_expired example_meta_fields
  have c: "fst (cache_get example_cache 3000 [(''a_k1.json'', ''A'')] ''a'' ''k1'') = None
      \<and> (\<forall>n. map_of (snd (cache_get example_cache 3000 [(''a_k1.json'', ''A'')] ''a'' ''k1'')) n
               = (if n = metaPath ''a'' ''k1'' then None else map_of [(''a_k1.json'', ''A'')] n))"
    by simp
  from a b c f show ?thesis
    by (simp add: example_paths example_meta_fields)
qed


section \<open>Header policy of proxied responses\<close>

lemma headers_reply_header:
  "headers (reply_header r key v) k = (if k = toLowerCase key then Some v else headers r k)"
  by (simp add: reply_header_def)

lemma copyHeaderLoop_never_sets:
  "k \<in> set hopByHop \<or> k = ''content-security-policy'' \<or> k = ''set-cookie'' \<Longrightarrow>
   headers (copyHeaderLoop r hs rw) k = headers r k"
proof (induction hs arbitrary: r)
  case Nil
  then show ?case by simp
next
  case (Cons h hs)
  obtain key v where h: "h = (key, v)" by (cases h)
  show ?case
    using Cons.prems Cons.IH [OF Cons.prems]
    by (auto simp add: h Let_def headers_reply_header)
qed

lemma copyHeaderLoop_rewritten:
  "k = ''content-length'' \<or> k = ''content-encoding'' \<or> k = ''etag'' \<Longrightarrow>
   headers (copyHeaderLoop r hs True) k = headers r k"
proof (induction hs arbitrary: r)
  case Nil
  then show ?case by simp
next
  case (Cons h hs)
  obtain key v where h: "h = (key, v)" by (cases h)
  show ?case
    using Cons.prems Cons.IH [OF Cons.prems]
    by (auto simp add: h Let_def headers_reply_header)
qed

lemma lower_literals:
  "toLowerCase ''x-robots-tag'' = ''x-robots-tag''"
  "toLowerCase ''x-cache'' = ''x-cache''"
  "toLowerCase ''content-length'' = ''content-length''"
  by (simp_all add: toLowerCase_def toLowerChar_def)

lemma headers_onRequestReply:
  "headers onRequestReply k = (if k = ''x-robots-tag'' then Some ''noindex, nofollow'' else None)"
  by (simp add: onRequestReply_def headers_reply_header lower_literals)

lemma headers_reply_code: "headers (reply_code r c) = headers r"
  by (simp add: reply_code_def)

lemma headers_reply_send: "headers (reply_send r p) = headers r"
  by (simp add: reply_send_def)

lemma sent_reply_send: "sent (reply_send r p) = p"
  by (simp add: reply_send_def)

lemma headers_copySafeHeaders:
  "headers (copySafeHeaders r hs rw) k =
     (if k = ''x-robots-tag'' then Some ''noindex, nofollow'' else headers (copyHeaderLoop r hs rw) k)"
  by (simp add: copySafeHeaders_def headers_reply_header lower_literals)

lemma dropped_not_synthetic:
  "k \<in> set hopByHop \<or> k = ''content-security-policy'' \<or> k = ''set-cookie'' \<Longrightarrow>
   k \<noteq> ''x-robots-tag'' \<and> k \<noteq> ''x-cache'' \<and> k \<noteq> ''content-length''"
  by (auto simp add: hopByHop_def)

lemma upstreamReply_dropped:
  assumes "k \<in> set hopByHop \<or> k = ''content-security-policy'' \<or> k = ''set-cookie''"
  shows "headers (upstreamReply cfg rh rc method slug target onRequestReply resp finalUrl) k = None"
  using dropped_not_synthetic [OF assms] copyHeaderLoop_never_sets [OF assms]
  by (simp add: upstreamReply_def Let_def headers_reply_send headers_reply_header headers_reply_code
      headers_copySafeHeaders headers_onRequestReply lower_literals)

lemma upstreamReply_robots:
  "headers (upstreamReply cfg rh rc method slug target onRequestReply resp finalUrl) ''x-robots-tag''
     = Some ''noindex, nofollow''"
  by (simp add: upstreamReply_def Let_def headers_reply_send headers_reply_header headers_reply_code
      headers_copySafeHeaders headers_onRequestReply lower_literals)

lemma upstreamReply_rewritten:
  assumes "sent (upstreamReply cfg rh rc method slug target onRequestReply resp finalUrl) = Body b"
    and "isHtmlResponse resp \<or> isCssResponse resp"
  shows "headers (upstreamReply cfg rh rc method slug target onRequestReply resp finalUrl) ''content-encoding'' = None
       \<and> headers (upstreamReply cfg rh rc method slug target onRequestReply resp finalUrl) ''etag'' = None
       \<and> headers (upstreamReply cfg rh rc method slug target onRequestReply resp finalUrl) ''content-length''
           = Some (showNat (length b))"
  using assms copyHeaderLoop_rewritten [of "''content-encoding''"] copyHeaderLoop_rewritten [of "''etag''"]
  by (auto simp add: upstreamReply_def Let_def headers_reply_send headers_reply_header headers_reply_code
      headers_copySafeHeaders headers_onRequestReply lower_literals sent_reply_send split: if_splits)

text \<open>
  Claim C5. The reply \<^verbatim>\<open>handleMirrorRequest\<close> builds from an upstream response, starting
  from the reply the \<^verbatim>\<open>onRequest\<close> hook hands it: its header table has no entry for any
  hop-by-hop header, for \<^verbatim>\<open>content-security-policy\<close> or for \<^verbatim>\<open>set-cookie\<close>; it has
  \<^verbatim>\<open>x-robots-tag: noindex, nofollow\<close>; and when a body was sent and it was rewritten (the
  response is HTML or CSS), the upstream \<^verbatim>\<open>content-encoding\<close> and \<^verbatim>\<open>etag\<close> are absent
  and \<^verbatim>\<open>content-length\<close> is the length of the body sent, not the upstream's.
\<close>

theorem proxied_response_header_policy:
  "(\<forall>k \<in> set [''connection'', ''transfer-encoding'', ''keep-alive'', ''proxy-authenticate'',
                ''proxy-authorization'', ''te'', ''trailers'', ''upgrade'',
                ''content-security-policy'', ''set-cookie''].
      headers (upstreamReply cfg rewriteHtml rewriteCss method slug target onRequestReply resp finalUrl) k
        = None)
   \<and> headers (upstreamReply cfg rewriteHtml rewriteCss method slug target onRequestReply resp finalUrl)
        ''x-robots-tag'' = Some ''noindex, nofollow''
   \<and> (sent (upstreamReply cfg rewriteHtml rewriteCss method slug target onRequestReply resp finalUrl)
          = Body b \<and> (isHtmlResponse resp \<or> isCssResponse resp)
        \<longrightarrow> headers (upstreamReply cfg rewriteHtml rewriteCss method slug target onRequestReply resp
                      finalUrl) ''content-encoding'' = None
          \<and> headers (upstreamReply cfg rewriteHtml rewriteCss method slug target onRequestReply resp
                      finalUrl) ''etag'' = None
          \<and> headers (upstreamReply cfg rewriteHtml rewriteCss method slug target onRequestReply resp
                      finalUrl) ''content-length'' = Some (showNat (length b)))"
proof (intro conjI ballI impI)
  fix k
  assume "k \<in> set [''connection'', ''transfer-encoding'', ''keep-alive'', ''proxy-authenticate'',
                ''proxy-authorization'', ''te'', ''trailers'', ''upgrade'',
                ''content-security-policy'', ''set-cookie'']"
  then have "k \<in> set hopByHop \<or> k = ''content-security-policy'' \<or> k = ''set-cookie''"
    by (simp add: hopByHop_def)
  then show "headers (upstreamReply cfg rewriteHtml rewriteCss method slug target onRequestReply resp
      finalUrl) k = None"
    by (rule upstreamReply_dropped)
next
  show "headers (upstreamReply cfg rewriteHtml rewriteCss method slug target onRequestReply resp finalUrl)
        ''x-robots-tag'' = Some ''noindex, nofollow''"
    by (rule upstreamReply_robots)
next
  assume h: "sent (upstreamReply cfg rewriteHtml rewriteCss method slug target onRequestReply resp finalUrl)
          = Body b \<and> (isHtmlResponse resp \<or> isCssResponse resp)"
  note r = upstreamReply_rewritten [OF conjunct1 [OF h] conjunct2 [OF h]]
  from r show "headers (upstreamReply cfg rewriteHtml rewriteCss method slug target onRequestReply resp
                      finalUrl) ''content-encoding'' = None" by (rule conjunct1)
  from r show "headers (upstreamReply cfg rewriteHtml rewriteCss method slug target onRequestReply resp
                      finalUrl) ''etag'' = None" by (elim conjE)
  from r show "headers (upstreamReply cfg rewriteHtml rewriteCss method slug target onRequestReply resp
                      finalUrl) ''content-length'' = Some (showNat (length b))" by (elim conjE)
qed

lemma example_response_html: "isHtmlResponse example_response"
  by (simp add: isHtmlResponse_def responseContentType_def headers_get_def example_response_def
      toLowerCase_def toLowerChar_def startsWith_def)

lemma example_response_sent:
  "sent (upstreamReply example_config (\<lambda>body base target slug. body) (\<lambda>body base target slug. body)
           ''GET'' ''example-com'' example_url onRequestReply example_response example_url)
   = Body ''<p>hi</p>''"
  using example_response_html
  by (simp add: upstreamReply_def Let_def sent_reply_send textLikeResponse_def)
     (simp add: example_response_def example_config_def)

theorem proxied_response_header_policy_witness:
  "sent (upstreamReply example_config (\<lambda>body base target slug. body) (\<lambda>body base target slug. body)
           ''GET'' ''example-com'' example_url onRequestReply example_response example_url)
     = Body ''<p>hi</p>''
   \<and> isHtmlResponse example_response
   \<and> headers (upstreamReply example_config (\<lambda>body base target slug. body) (\<lambda>body base target slug. body)
           ''GET'' ''example-com'' example_url onRequestReply example_response example_url)
        ''set-cookie'' = None
   \<and> headers (upstreamReply example_config (\<lambda>body base target slug. body) (\<lambda>body base target slug. body)
           ''GET'' ''example-com'' example_url onRequestReply example_response example_url)
        ''etag'' = None
   \<and> headers (upstreamReply example_config (\<lambda>body base target slug. body) (\<lambda>body base target slug. body)
           ''GET'' ''example-com'' example_url onRequestReply example_response example_url)
        ''content-length'' = Some ''9''"
proof -
  let ?r = "upstreamReply example_config (\<lambda>body base target slug. body) (\<lambda>body base target slug. body)
           ''GET'' ''example-com'' example_url onRequestReply example_response example_url"
  note p = proxied_response_header_policy [of example_config "\<lambda>body base target slug. body"
      "\<lambda>body base target slug. body" "''GET''" "''example-com''" example_url example_response
      example_url "''<p>hi</p>''"]
  from p have a: "headers ?r ''set-cookie'' = None" by simp
  from p example_response_sent example_response_html
  have b: "headers ?r ''etag'' = None" "headers ?r ''content-length'' = Some (showNat (length ''<p>hi</p>''))"
    by simp_all
  have "showNat (length ''<p>hi</p>'') = ''9''" by (simp add: showNat.simps digitChar_def)
  with a b example_response_sent example_response_html show ?thesis by simp
qed

section \<open>The mirror registry under resolve\<close>

lemma mirrors_logEvent: "mirrors (snd (logEvent db rand now level kind slug message meta)) = mirrors db"
  by (simp add: logEvent_def Let_def)

lemma logEvent_fresh:
  "\<not> list_ex (\<lambda>e. event_id e = ''evt_'' @ rand) (events db) \<Longrightarrow>
   \<exists>ev db'. logEvent db rand now level kind slug message meta = (Inr ev, db')"
  by (simp add: logEvent_def Let_def)

lemma createMirror_error_unchanged:
  "createMirror db rand now slug origin path = (Inl e, db') \<Longrightarrow>
   e \<noteq> ''Cannot read properties of null'' \<Longrightarrow> db' = db"
  by (auto simp add: createMirror_def Let_def split: if_splits option.splits)

lemma find_append_new:
  "find P (xs @ [x]) = (case find P xs of Some y \<Rightarrow> Some y | None \<Rightarrow> if P x then Some x else None)"
  by (induction xs) auto

lemma createMirror_ok:
  assumes "createMirror db rand now slug origin path = (Inr m, db')"
  shows "mirror_slug m = slug \<and> targetOrigin m = origin \<and> \<not> disabled m
       \<and> mirrors db' = mirrors db @ [m] \<and> events db' = events db"
proof -
  from assms have noslug: "\<not> list_ex (\<lambda>m. mirror_slug m = slug) (mirrors db)"
    by (auto simp add: createMirror_def Let_def split: if_splits)
  then have "find (\<lambda>m. mirror_slug m = slug) (mirrors db) = None"
    by (simp add: find_None_iff list_ex_iff)
  with assms show ?thesis
    by (auto simp add: createMirror_def Let_def findMirrorBySlug_def find_append_new
        split: if_splits option.splits)
qed

lemma find_map_preserving:
  "(\<And>x. P (f x) = P x) \<Longrightarrow> find P (map f xs) = map_option f (find P xs)"
  by (induction xs) auto

lemma findMirrorByOrigin_touch:
  "findMirrorByOrigin (touchMirror db now slug path) origin
     = map_option (\<lambda>m. if mirror_slug m = slug
                         then m\<lparr>updatedAt := now,
                                lastPath := (case path of Some p \<Rightarrow> Some p | None \<Rightarrow> lastPath m)\<rparr>
                         else m)
         (findMirrorByOrigin db origin)"
  unfolding findMirrorByOrigin_def touchMirror_def
  by (simp add: find_map_preserving)

text \<open>After a successful resolve-or-create the registry has an enabled row for the origin,
  the first such row carries the returned slug, and \<open>created\<close> tells whether there was none before.\<close>

lemma resolveOrCreate_post:
  assumes "resolveOrCreateMirrorForUrl dr db u = (Inr (created, m), db1)"
  shows "(\<exists>m'. findMirrorByOrigin db1 (protocol u @ ''//'' @ url_host u) = Some m'
              \<and> mirror_slug m' = mirror_slug m)
       \<and> created = (findMirrorByOrigin db (protocol u @ ''//'' @ url_host u) = None)"
proof (cases "findMirrorByOrigin db (protocol u @ ''//'' @ url_host u)")
  case (Some existing)
  with assms have "created = False" "m = existing"
    "db1 = touchMirror db (draw_now dr) (mirror_slug existing) (Some (pathname u @ search u))"
    by (auto simp add: resolveOrCreateMirrorForUrl_def Let_def)
  with Some show ?thesis by (simp add: findMirrorByOrigin_touch)
next
  case None
  let ?origin = "protocol u @ ''//'' @ url_host u"
  let ?slug = "ensureUniqueSlug (slugifyHost (hostname u)) (\<lambda>candidate. findMirrorBySlug db candidate \<noteq> None)
                 (draw_slug dr)"
  from assms None have c: "createMirror db (draw_mirror dr) (draw_now dr) ?slug ?origin
      (Some (pathname u @ search u)) = (Inr m, db1)" and cr: "created = True"
    by (auto simp add: resolveOrCreateMirrorForUrl_def Let_def split: prod.splits sum.splits)
  from createMirror_ok [OF c] have m: "targetOrigin m = ?origin" "\<not> disabled m"
    "mirrors db1 = mirrors db @ [m]" by simp_all
  from None have "find (\<lambda>m. targetOrigin m = ?origin \<and> \<not> disabled m) (mirrors db) = None"
    by (simp add: findMirrorByOrigin_def)
  then have "findMirrorByOrigin db1 ?origin = Some m"
    using m by (simp add: findMirrorByOrigin_def find_append_new)
  with None cr show ?thesis by simp
qed

lemma findMirrorByOrigin_cong: "mirrors db' = mirrors db \<Longrightarrow> findMirrorByOrigin db' = findMirrorByOrigin db"
  by (simp add: findMirrorByOrigin_def fun_eq_iff)

lemma resolveTargetUrl_success:
  assumes "resolveTargetUrl rt lookup cfg allowlist dr db raw = (Inr res, db2)"
  shows "\<exists>u created m db1.
           rt_parseUrl rt raw = Some u
         \<and> resolveOrCreateMirrorForUrl dr db u = (Inr (created, m), db1)
         \<and> mirrors db2 = mirrors db1
         \<and> res_slug res = mirror_slug m \<and> res_created res = created"
proof -
  from assms obtain u where u: "rt_parseUrl rt raw = Some u"
    by (auto simp add: resolveTargetUrl_def split: option.splits)
  with assms obtain created m db1 where r: "resolveOrCreateMirrorForUrl dr db u = (Inr (created, m), db1)"
    by (auto simp add: resolveTargetUrl_def split: sum.splits if_splits prod.splits)
  with assms u have
    "db2 = snd (logEvent db1 (draw_event dr) (draw_now dr) ''info'' ''resolve''
                          (Some (mirror_slug m)) ''Mirror resolved''
                          [(''url'', url_toString u), (''created'', showBool created)])"
    "res_slug res = mirror_slug m" "res_created res = created"
    by (auto simp add: resolveTargetUrl_def split: sum.splits if_splits prod.splits)
  then show ?thesis using u r by (simp add: mirrors_logEvent)
qed

text \<open>
  Claim C8, as the code has it. When two consecutive calls of \<^verbatim>\<open>resolveTargetUrl\<close> on the
  same URL both succeed, the second running on the registry the first returned, they return
  the same slug and the second reports \<^verbatim>\<open>created: false\<close>. The first reports
  \<^verbatim>\<open>created: true\<close> exactly when the registry held no enabled mirror of the URL's origin
  before it.
\<close>

theorem consecutive_resolves_same_slug:
  assumes first: "resolveTargetUrl rt lookup cfg allowlist dr db raw = (Inr r1, db1)"
    and second: "resolveTargetUrl rt lookup' cfg' allowlist' dr' db1 raw = (Inr r2, db2)"
    and parsed: "rt_parseUrl rt raw = Some u"
  shows "res_slug r2 = res_slug r1 \<and> res_created r2 = False
       \<and> res_created r1 = (findMirrorByOrigin db (protocol u @ ''//'' @ url_host u) = None)"
proof -
  let ?origin = "protocol u @ ''//'' @ url_host u"
  from resolveTargetUrl_success [OF first] parsed obtain c1 m1 dbA where
    a: "resolveOrCreateMirrorForUrl dr db u = (Inr (c1, m1), dbA)" "mirrors db1 = mirrors dbA"
       "res_slug r1 = mirror_slug m1" "res_created r1 = c1"
    by auto
  from resolveTargetUrl_success [OF second] parsed obtain c2 m2 dbB where
    b: "resolveOrCreateMirrorForUrl dr' db1 u = (Inr (c2, m2), dbB)"
       "res_slug r2 = mirror_slug m2" "res_created r2 = c2"
    by auto
  note post = resolveOrCreate_post [OF a(1)]
  from post have pc: "c1 = (findMirrorByOrigin db ?origin = None)" by (rule conjunct2)
  from post have "\<exists>m'. findMirrorByOrigin dbA ?origin = Some m' \<and> mirror_slug m' = mirror_slug m1"
    by (rule conjunct1)
  then obtain m' where
    p0: "findMirrorByOrigin dbA ?origin = Some m' \<and> mirror_slug m' = mirror_slug m1" ..
  then have p: "findMirrorByOrigin dbA ?origin = Some m'" "mirror_slug m' = mirror_slug m1"
    by simp_all
  from p(1) have f: "findMirrorByOrigin db1 ?origin = Some m'"
    by (simp only: findMirrorByOrigin_cong [OF a(2)])
  with b(1) have "c2 = False" "m2 = m'"
    by (simp_all add: resolveOrCreateMirrorForUrl_def Let_def)
  with a(3,4) b(2,3) p(2) pc show ?thesis by simp
qed


section \<open>A failed resolve leaves the registry alone\<close>

lemma resolveTargetUrl_invalid_url:
  "rt_parseUrl rt raw = None \<Longrightarrow>
   resolveTargetUrl rt lookup cfg al dr db raw = (Inl ''invalid_url'', db)"
  by (simp add: resolveTargetUrl_def)

lemma resolveTargetUrl_guard_fails:
  "rt_parseUrl rt raw = Some u \<Longrightarrow>
   assertSafeUrl (rt_isIPv6 rt) lookup u (MIRROR_ENABLE_HTTP cfg) = Inl e \<Longrightarrow>
   resolveTargetUrl rt lookup cfg al dr db raw = (Inl e, db)"
  by (simp add: resolveTargetUrl_def)

lemma resolveTargetUrl_not_allowed:
  "rt_parseUrl rt raw = Some u \<Longrightarrow>
   assertSafeUrl (rt_isIPv6 rt) lookup u (MIRROR_ENABLE_HTTP cfg) = Inr x \<Longrightarrow>
   \<not> isAllowed al u \<Longrightarrow>
   resolveTargetUrl rt lookup cfg al dr db raw = (Inl ''domain_not_allowed'', db)"
  by (simp add: resolveTargetUrl_def)

lemma createMirror_error_cases:
  "createMirror db rand now slug origin path = (Inl e, db') \<Longrightarrow>
   e \<in> set [''UNIQUE constraint failed: mirrors.id'', ''UNIQUE constraint failed: mirrors.slug'',
            ''Cannot read properties of null'']"
  by (auto simp add: createMirror_def Let_def split: if_splits option.splits)

lemma logEvent_error_cases:
  "logEvent db rand now level kind slug message meta = (Inl e, db') \<Longrightarrow>
   e = ''UNIQUE constraint failed: events.id''"
  by (auto simp add: logEvent_def Let_def split: if_splits)

lemma resolveOrCreate_error_cases:
  "resolveOrCreateMirrorForUrl dr db u = (Inl e, db') \<Longrightarrow>
   e \<in> set [''UNIQUE constraint failed: mirrors.id'', ''UNIQUE constraint failed: mirrors.slug'',
            ''Cannot read properties of null'']"
  by (auto simp add: resolveOrCreateMirrorForUrl_def Let_def
      split: option.splits prod.splits sum.splits dest!: createMirror_error_cases)

lemma resolveTargetUrl_error_cases:
  assumes "resolveTargetUrl rt lookup cfg al dr db raw = (Inl e, db')"
  shows "db' = db
       \<or> e \<in> set [''UNIQUE constraint failed: mirrors.id'', ''UNIQUE constraint failed: mirrors.slug'',
            ''Cannot read properties of null'', ''UNIQUE constraint failed: events.id'']"
proof (cases "rt_parseUrl rt raw")
  case None
  with assms show ?thesis by (simp add: resolveTargetUrl_def)
next
  case (Some u)
  show ?thesis
  proof (cases "assertSafeUrl (rt_isIPv6 rt) lookup u (MIRROR_ENABLE_HTTP cfg)")
    case (Inl g)
    with assms Some show ?thesis by (simp add: resolveTargetUrl_def)
  next
    case (Inr x)
    show ?thesis
    proof (cases "isAllowed al u")
      case False
      with assms Some Inr show ?thesis by (simp add: resolveTargetUrl_def)
    next
      case True
      obtain r db1 where rc: "resolveOrCreateMirrorForUrl dr db u = (r, db1)" by force
      show ?thesis
      proof (cases r)
        case (Inl e1)
        with assms Some Inr True rc have "e = e1" by (simp add: resolveTargetUrl_def)
        with resolveOrCreate_error_cases [of dr db u e1 db1] rc Inl show ?thesis by auto
      next
        case (Inr cm)
        obtain created m where cm: "cm = (created, m)" by force
        from assms Some \<open>assertSafeUrl (rt_isIPv6 rt) lookup u (MIRROR_ENABLE_HTTP cfg) = Inr x\<close>
          True rc Inr cm
        have "\<exists>db2. logEvent db1 (draw_event dr) (draw_now dr) ''info'' ''resolve''
                          (Some (mirror_slug m)) ''Mirror resolved''
                          [(''url'', url_toString u), (''created'', showBool created)] = (Inl e, db2)"
          by (auto simp add: resolveTargetUrl_def split: prod.splits sum.splits)
        then show ?thesis by (auto dest: logEvent_error_cases)
      qed
    qed
  qed
qed

text \<open>
  Claim C4. When \<^verbatim>\<open>resolveTargetUrl\<close> fails in validation, the registry it returns is the
  one it was given: an unparseable URL fails with \<^verbatim>\<open>invalid_url\<close>, a URL the guard rejects
  fails with the guard's error (\<^verbatim>\<open>invalid_scheme\<close>, \<^verbatim>\<open>ssrf_blocked\<close>, ...), a URL the
  allowlist does not match fails with \<^verbatim>\<open>domain_not_allowed\<close>, each with the registry
  unchanged; and whenever the call fails with one of the validation errors, no row was
  added or changed.
\<close>

theorem resolveTargetUrl_failure_leaves_registry:
  "(rt_parseUrl rt raw = None \<longrightarrow>
      resolveTargetUrl rt lookup cfg al dr db raw = (Inl ''invalid_url'', db))
   \<and> (\<forall>u e. rt_parseUrl rt raw = Some u
          \<and> assertSafeUrl (rt_isIPv6 rt) lookup u (MIRROR_ENABLE_HTTP cfg) = Inl e \<longrightarrow>
        resolveTargetUrl rt lookup cfg al dr db raw = (Inl e, db))
   \<and> (\<forall>u. rt_parseUrl rt raw = Some u
          \<and> assertSafeUrl (rt_isIPv6 rt) lookup u (MIRROR_ENABLE_HTTP cfg) = Inr ()
          \<and> \<not> isAllowed al u \<longrightarrow>
        resolveTargetUrl rt lookup cfg al dr db raw = (Inl ''domain_not_allowed'', db))
   \<and> (\<forall>e db'. resolveTargetUrl rt lookup cfg al dr db raw = (Inl e, db')
          \<and> e \<in> set [''invalid_url'', ''invalid_scheme'', ''credentials_not_allowed'',
                      ''empty_hostname'', ''ssrf_blocked'', ''dns_resolution_failed'',
                      ''invalid_ip'', ''domain_not_allowed''] \<longrightarrow>
        db' = db)"
proof (intro conjI allI impI)
  assume "rt_parseUrl rt raw = None"
  then show "resolveTargetUrl rt lookup cfg al dr db raw = (Inl ''invalid_url'', db)"
    by (rule resolveTargetUrl_invalid_url)
next
  fix u e
  assume "rt_parseUrl rt raw = Some u
          \<and> assertSafeUrl (rt_isIPv6 rt) lookup u (MIRROR_ENABLE_HTTP cfg) = Inl e"
  then show "resolveTargetUrl rt lookup cfg al dr db raw = (Inl e, db)"
    by (simp add: resolveTargetUrl_guard_fails)
next
  fix u
  assume "rt_parseUrl rt raw = Some u
          \<and> assertSafeUrl (rt_isIPv6 rt) lookup u (MIRROR_ENABLE_HTTP cfg) = Inr ()
          \<and> \<not> isAllowed al u"
  then show "resolveTargetUrl rt lookup cfg al dr db raw = (Inl ''domain_not_allowed'', db)"
    by (simp add: resolveTargetUrl_not_allowed)
next
  fix e db'
  assume h: "resolveTargetUrl rt lookup cfg al dr db raw = (Inl e, db')
          \<and> e \<in> set [''invalid_url'', ''invalid_scheme'', ''credentials_not_allowed'',
                      ''empty_hostname'', ''ssrf_blocked'', ''dns_resolution_failed'',
                      ''invalid_ip'', ''domain_not_allowed'']"
  from resolveTargetUrl_error_cases [OF conjunct1 [OF h]] conjunct2 [OF h]
  show "db' = db" by auto
qed

subsection \<open>The guard and the matcher on the example inputs\<close>

lemma guard_example_host:
  "protocol u = ''https:'' \<Longrightarrow> username u = [] \<Longrightarrow> password u = [] \<Longrightarrow> hostname u = ''example.com'' \<Longrightarrow>
   assertSafeUrl (\<lambda>_. False) (\<lambda>host. Inr [''93.184.216.34'']) u allowHttp = Inr ()"
  by (simp add: assertSafeUrl_def assertSafeResolvedHost_def assertSafeHostname_def
      trim_def trimStart_def trimEnd_def isSpace_def toLowerCase_def toLowerChar_def
      endsWith_def net_isIP_def isIPv4_def isV4Seg_def isDigit_def decimalValue_def digitVal_def
      assertSafeIp_def isPrivateIpv4_def ipToInt_def toUint32_def shiftLeft8_def toInt32_def
      IPV4_PRIVATE_RANGES_def Let_def)

lemma guard_example: "assertSafeUrl (\<lambda>_. False) example_lookup example_url False = Inr ()"
  using guard_example_host [of example_url False]
  by (simp add: example_url_def example_lookup_def [abs_def])

lemma guard_loopback:
  "assertSafeUrl (\<lambda>_. False) example_lookup loopback_url False = Inl ''ssrf_blocked''"
  by (simp add: assertSafeUrl_def assertSafeResolvedHost_def assertSafeHostname_def
      loopback_url_def trim_def trimStart_def trimEnd_def isSpace_def toLowerCase_def toLowerChar_def
      endsWith_def net_isIP_def isIPv4_def isV4Seg_def isDigit_def decimalValue_def digitVal_def
      assertSafeIp_def isPrivateIpv4_def ipToInt_def toUint32_def shiftLeft8_def toInt32_def
      IPV4_PRIVATE_RANGES_def Let_def)

lemma match_example_host:
  "protocol u = ''https:'' \<Longrightarrow> hostname u = ''example.com'' \<Longrightarrow>
   allowlist_match example_allowlist u = Some (hd example_allowlist)"
  by (simp add: allowlist_match_def example_allowlist_def
      normalizeHost_def stripDots_def trim_def trimStart_def trimEnd_def isSpace_def toLowerCase_def
      toLowerChar_def Let_def)

lemma allowed_example: "isAllowed example_allowlist example_url"
  using match_example_host [of example_url] by (simp add: isAllowed_def example_url_def)

lemma not_allowed_empty: "\<not> isAllowed [] u"
  by (simp add: isAllowed_def allowlist_match_def Let_def)

theorem resolveTargetUrl_failure_leaves_registry_witness:
  "resolveTargetUrl example_runtime example_lookup example_config example_allowlist example_draws
     empty_db ''not a url'' = (Inl ''invalid_url'', empty_db)
   \<and> resolveTargetUrl example_runtime example_lookup example_config example_allowlist example_draws
     empty_db ''https://127.0.0.1/'' = (Inl ''ssrf_blocked'', empty_db)
   \<and> resolveTargetUrl example_runtime example_lookup example_config [] example_draws
     empty_db ''https://example.com/foo'' = (Inl ''domain_not_allowed'', empty_db)"
proof -
  have p1: "rt_parseUrl example_runtime ''not a url'' = None"
    and p2: "rt_parseUrl example_runtime ''https://127.0.0.1/'' = Some loopback_url"
    and p3: "rt_parseUrl example_runtime ''https://example.com/foo'' = Some example_url"
    and v6: "rt_isIPv6 example_runtime = (\<lambda>_. False)"
    and http: "MIRROR_ENABLE_HTTP example_config = False"
    by (simp_all add: example_runtime_def example_config_def)
  note t1 = resolveTargetUrl_failure_leaves_registry
    [of example_runtime "''not a url''" example_lookup example_config example_allowlist
        example_draws empty_db]
  note t2 = resolveTargetUrl_failure_leaves_registry
    [of example_runtime "''https://127.0.0.1/''" example_lookup example_config example_allowlist
        example_draws empty_db]
  note t3 = resolveTargetUrl_failure_leaves_registry
    [of example_runtime "''https://example.com/foo''" example_lookup example_config "[]"
        example_draws empty_db]
  from t1 p1 have a: "resolveTargetUrl example_runtime example_lookup example_config example_allowlist
     example_draws empty_db ''not a url'' = (Inl ''invalid_url'', empty_db)" by blast
  from t2 p2 guard_loopback v6 http
  have b: "resolveTargetUrl example_runtime example_lookup example_config example_allowlist
     example_draws empty_db ''https://127.0.0.1/'' = (Inl ''ssrf_blocked'', empty_db)" by simp
  from t3 p3 guard_example v6 http not_allowed_empty [of example_url]
  have c: "resolveTargetUrl example_runtime example_lookup example_config [] example_draws
     empty_db ''https://example.com/foo'' = (Inl ''domain_not_allowed'', empty_db)" by simp
  from a b c show ?thesis by simp
qed

subsection \<open>Two resolves of the example URL\<close>

lemma slugify_example: "slugifyHost ''example.com'' = ''example-com''"
  by (simp add: slugifyHost_def stripDashes_def toLowerCase_def toLowerChar_def isSlugChar_def Let_def)

lemma origin_example: "protocol example_url @ CHR ''/'' # CHR ''/'' # url_host example_url = ''https://example.com''"
  by (simp add: example_url_def url_host_def)

lemma launch_example: "buildLaunchUrl ''example-com'' example_url = ''/m/example-com/foo''"
  by (simp add: buildLaunchUrl_def encodeURIComponent_def encodeChar_def unreservedChars_def
      example_url_def Let_def)

lemma toString_example: "url_toString example_url = ''https://example.com/foo''"
  by (simp add: url_toString_def url_host_def example_url_def)

lemma parse_example: "rt_parseUrl example_runtime ''https://example.com/foo'' = Some example_url"
  by (simp add: example_runtime_def)

lemma registered_db_alt: "registered_db = \<lparr>mirrors = [example_mirror], events = []\<rparr>"
  by (simp add: registered_db_def)

lemma create_example:
  "createMirror empty_db (draw_mirror example_draws) (draw_now example_draws) ''example-com''
     ''https://example.com'' (Some ''/foo'') = (Inr example_mirror, registered_db)"
  by (simp add: createMirror_def empty_db_def example_draws_def registered_db_alt example_mirror_def
      findMirrorBySlug_def Let_def)

lemma resolveOrCreate_example:
  "resolveOrCreateMirrorForUrl example_draws empty_db example_url
     = (Inr (True, example_mirror), registered_db)"
proof -
  have a: "findMirrorByOrigin empty_db ''https://example.com'' = None"
    by (simp add: findMirrorByOrigin_def empty_db_def)
  have b: "\<And>c. findMirrorBySlug empty_db c = None"
    "\<And>base r. ensureUniqueSlug base (\<lambda>c. False) r = base"
    by (simp_all add: ensureUniqueSlug_def findMirrorBySlug_def empty_db_def)
  have c: "hostname example_url = ''example.com''" "pathname example_url @ search example_url = ''/foo''"
    by (simp_all add: example_url_def)
  show ?thesis
    by (simp add: resolveOrCreateMirrorForUrl_def origin_example a b c slugify_example create_example
        Let_def)
qed

lemma resolve_example:
  "resolveTargetUrl example_runtime example_lookup example_config example_allowlist example_draws
     empty_db ''https://example.com/foo''
   = (Inr \<lparr>res_slug = ''example-com'', res_targetOrigin = ''https://example.com'',
            res_launchUrl = ''/m/example-com/foo'', res_created = True\<rparr>,
      registered_db\<lparr>events :=
        [\<lparr>event_id = ''evt_8899aabbccddeeff'', event_at = ''2026-01-01T00:00:00.000Z'',
          event_level = ''info'', event_kind = ''resolve'', event_slug = Some ''example-com'',
          event_message = ''Mirror resolved'',
          event_meta = [(''url'', ''https://example.com/foo''), (''created'', ''true'')]\<rparr>]\<rparr>)"
proof -
  have v6: "rt_isIPv6 example_runtime = (\<lambda>_. False)" "MIRROR_ENABLE_HTTP example_config = False"
    by (simp_all add: example_runtime_def example_config_def)
  have m: "mirror_slug example_mirror = ''example-com''" "targetOrigin example_mirror = ''https://example.com''"
    by (simp_all add: example_mirror_def)
  have l: "logEvent registered_db (draw_event example_draws) (draw_now example_draws) ''info''
      ''resolve'' (Some ''example-com'') ''Mirror resolved''
      [(''url'', ''https://example.com/foo''), (''created'', showBool True)]
    = (Inr \<lparr>event_id = ''evt_8899aabbccddeeff'', event_at = ''2026-01-01T00:00:00.000Z'',
          event_level = ''info'', event_kind = ''resolve'', event_slug = Some ''example-com'',
          event_message = ''Mirror resolved'',
          event_meta = [(''url'', ''https://example.com/foo''), (''created'', ''true'')]\<rparr>,
       registered_db\<lparr>events :=
        [\<lparr>event_id = ''evt_8899aabbccddeeff'', event_at = ''2026-01-01T00:00:00.000Z'',
          event_level = ''info'', event_kind = ''resolve'', event_slug = Some ''example-com'',
          event_message = ''Mirror resolved'',
          event_meta = [(''url'', ''https://example.com/foo''), (''created'', ''true'')]\<rparr>]\<rparr>)"
    by (simp add: logEvent_def registered_db_def example_draws_def showBool_def Let_def)
  show ?thesis
    using guard_example allowed_example
    by (simp add: resolveTargetUrl_def parse_example v6 resolveOrCreate_example m toString_example
        launch_example l)
qed

lemma registered_db_mirrors:
  "mirrors registered_db = [example_mirror\<lparr>updatedAt := ''2026-01-01T00:00:00.000Z''\<rparr>]"
  by (simp add: registered_db_def example_mirror_def)

lemma resolveOrCreate_registered:
  "mirrors db = [example_mirror\<lparr>updatedAt := t\<rparr>] \<Longrightarrow>
   resolveOrCreateMirrorForUrl dr db example_url
     = (Inr (False, example_mirror\<lparr>updatedAt := t\<rparr>),
        touchMirror db (draw_now dr) ''example-com'' (Some ''/foo''))"
proof -
  assume h: "mirrors db = [example_mirror\<lparr>updatedAt := t\<rparr>]"
  have a: "findMirrorByOrigin db ''https://example.com'' = Some (example_mirror\<lparr>updatedAt := t\<rparr>)"
    by (simp add: findMirrorByOrigin_def h) (simp add: example_mirror_def)
  have c: "pathname example_url @ search example_url = ''/foo''"
    "mirror_slug example_mirror = ''example-com''"
    by (simp_all add: example_url_def example_mirror_def)
  show ?thesis
    by (simp add: resolveOrCreateMirrorForUrl_def origin_example a c Let_def)
qed

lemma resolve_registered:
  assumes "mirrors db = [example_mirror\<lparr>updatedAt := t\<rparr>]"
    and "\<not> list_ex (\<lambda>e. event_id e = ''evt_'' @ draw_event dr) (events db)"
  shows "fst (resolveTargetUrl example_runtime example_lookup example_config example_allowlist dr
          db ''https://example.com/foo'')
   = Inr \<lparr>res_slug = ''example-com'', res_targetOrigin = ''https://example.com'',
           res_launchUrl = ''/m/example-com/foo'', res_created = False\<rparr>"
proof -
  have v6: "rt_isIPv6 example_runtime = (\<lambda>_. False)" "MIRROR_ENABLE_HTTP example_config = False"
    by (simp_all add: example_runtime_def example_config_def)
  have m: "mirror_slug example_mirror = ''example-com''" "targetOrigin example_mirror = ''https://example.com''"
    by (simp_all add: example_mirror_def)
  have e: "events (touchMirror db (draw_now dr) ''example-com'' (Some ''/foo'')) = events db"
    by (simp add: touchMirror_def)
  show ?thesis
    using guard_example allowed_example assms(2)
    by (simp add: resolveTargetUrl_def parse_example v6 resolveOrCreate_registered [OF assms(1)] m
        launch_example logEvent_def e Let_def)
qed

lemma resolve_registered_db:
  assumes "mirrors db = [example_mirror\<lparr>updatedAt := t\<rparr>]"
  shows "mirrors (snd (resolveTargetUrl example_runtime example_lookup example_config
            example_allowlist dr db ''https://example.com/foo''))
          = [example_mirror\<lparr>updatedAt := draw_now dr\<rparr>]
       \<and> (\<forall>e \<in> set (events (snd (resolveTargetUrl example_runtime example_lookup example_config
            example_allowlist dr db ''https://example.com/foo''))).
            e \<in> set (events db) \<or> event_id e = ''evt_'' @ draw_event dr)"
proof -
  have v6: "rt_isIPv6 example_runtime = (\<lambda>_. False)" "MIRROR_ENABLE_HTTP example_config = False"
    by (simp_all add: example_runtime_def example_config_def)
  have m: "mirror_slug example_mirror = ''example-com''" "targetOrigin example_mirror = ''https://example.com''"
    "lastPath example_mirror = Some ''/foo''"
    by (simp_all add: example_mirror_def)
  have t: "mirrors (touchMirror db (draw_now dr) ''example-com'' (Some ''/foo''))
      = [example_mirror\<lparr>updatedAt := draw_now dr\<rparr>]"
    "events (touchMirror db (draw_now dr) ''example-com'' (Some ''/foo'')) = events db"
    by (simp_all add: touchMirror_def assms m)
  show ?thesis
    using guard_example allowed_example
    by (auto simp add: resolveTargetUrl_def parse_example v6 resolveOrCreate_registered [OF assms] m
        launch_example logEvent_def t Let_def)
qed

text \<open>
  In a registry that already mirrors the origin, the first of two consecutive resolves of
  the same URL returns \<^verbatim>\<open>created: false\<close>, and so does the second.
\<close>

theorem resolve_of_registered_origin_is_not_created:
  "fst (resolveTargetUrl example_runtime example_lookup example_config example_allowlist example_draws
          registered_db ''https://example.com/foo'')
     = Inr \<lparr>res_slug = ''example-com'', res_targetOrigin = ''https://example.com'',
             res_launchUrl = ''/m/example-com/foo'', res_created = False\<rparr>
   \<and> fst (resolveTargetUrl example_runtime example_lookup example_config example_allowlist example_draws'
          (snd (resolveTargetUrl example_runtime example_lookup example_config example_allowlist
                  example_draws registered_db ''https://example.com/foo''))
          ''https://example.com/foo'')
     = Inr \<lparr>res_slug = ''example-com'', res_targetOrigin = ''https://example.com'',
             res_launchUrl = ''/m/example-com/foo'', res_created = False\<rparr>"
proof -
  let ?db1 = "snd (resolveTargetUrl example_runtime example_lookup example_config example_allowlist
                  example_draws registered_db ''https://example.com/foo'')"
  have a: "fst (resolveTargetUrl example_runtime example_lookup example_config example_allowlist
      example_draws registered_db ''https://example.com/foo'')
     = Inr \<lparr>res_slug = ''example-com'', res_targetOrigin = ''https://example.com'',
             res_launchUrl = ''/m/example-com/foo'', res_created = False\<rparr>"
    by (rule resolve_registered [OF registered_db_mirrors]) (simp add: registered_db_def)
  note d = resolve_registered_db [OF registered_db_mirrors, of example_draws]
  have m1: "mirrors ?db1 = [example_mirror\<lparr>updatedAt := draw_now example_draws\<rparr>]"
    using d by (rule conjunct1)
  have "\<forall>e\<in>set (events ?db1). event_id e = ''evt_'' @ draw_event example_draws"
    using conjunct2 [OF d] by (simp add: registered_db_def)
  then have e1: "\<not> list_ex (\<lambda>e. event_id e = ''evt_'' @ draw_event example_draws') (events ?db1)"
    by (auto simp add: list_ex_iff example_draws_def example_draws'_def)
  have b: "fst (resolveTargetUrl example_runtime example_lookup example_config example_allowlist
      example_draws' ?db1 ''https://example.com/foo'')
     = Inr \<lparr>res_slug = ''example-com'', res_targetOrigin = ''https://example.com'',
             res_launchUrl = ''/m/example-com/foo'', res_created = False\<rparr>"
    by (rule resolve_registered [OF m1 e1])
  from a b show ?thesis by (rule conjI)
qed

theorem consecutive_resolves_same_slug_witness:
  "fst (resolveTargetUrl example_runtime example_lookup example_config example_allowlist example_draws
          empty_db ''https://example.com/foo'')
     = Inr \<lparr>res_slug = ''example-com'', res_targetOrigin = ''https://example.com'',
             res_launchUrl = ''/m/example-com/foo'', res_created = True\<rparr>
   \<and> findMirrorByOrigin empty_db ''https://example.com'' = None
   \<and> fst (resolveTargetUrl example_runtime example_lookup example_config example_allowlist example_draws'
          (snd (resolveTargetUrl example_runtime example_lookup example_config example_allowlist
                  example_draws empty_db ''https://example.com/foo''))
          ''https://example.com/foo'')
     = Inr \<lparr>res_slug = ''example-com'', res_targetOrigin = ''https://example.com'',
             res_launchUrl = ''/m/example-com/foo'', res_created = False\<rparr>"
proof -
  let ?r1 = "\<lparr>res_slug = ''example-com'', res_targetOrigin = ''https://example.com'',
             res_launchUrl = ''/m/example-com/foo'', res_created = True\<rparr>"
  let ?db1 = "registered_db\<lparr>events :=
        [\<lparr>event_id = ''evt_8899aabbccddeeff'', event_at = ''2026-01-01T00:00:00.000Z'',
          event_level = ''info'', event_kind = ''resolve'', event_slug = Some ''example-com'',
          event_message = ''Mirror resolved'',
          event_meta = [(''url'', ''https://example.com/foo''), (''created'', ''true'')]\<rparr>]\<rparr>"
  have second: "fst (resolveTargetUrl example_runtime example_lookup example_config example_allowlist
      example_draws' ?db1 ''https://example.com/foo'')
     = Inr \<lparr>res_slug = ''example-com'', res_targetOrigin = ''https://example.com'',
             res_launchUrl = ''/m/example-com/foo'', res_created = False\<rparr>"
    by (rule resolve_registered [of _ "''2026-01-01T00:00:00.000Z''"])
       (simp_all add: example_draws'_def registered_db_def example_mirror_def)
  then obtain db2 where second': "resolveTargetUrl example_runtime example_lookup example_config
      example_allowlist example_draws' ?db1 ''https://example.com/foo''
     = (Inr \<lparr>res_slug = ''example-com'', res_targetOrigin = ''https://example.com'',
             res_launchUrl = ''/m/example-com/foo'', res_created = False\<rparr>, db2)"
    by (metis prod.collapse)
  note t = consecutive_resolves_same_slug [OF resolve_example second' parse_example]
  from t have "findMirrorByOrigin empty_db ''https://example.com'' = None"
    by (simp add: origin_example)
  with resolve_example second show ?thesis by simp
qed

section \<open>The status of a failed name resolution\<close>

lemma code_proxyErrorReply: "code (proxyErrorReply r message) = proxyErrorStatus message"
  by (simp add: proxyErrorReply_def reply_send_def reply_code_def)

lemma sent_proxyErrorReply: "sent (proxyErrorReply r message) = Failure message"
  by (simp add: proxyErrorReply_def reply_send_def reply_code_def)

lemma handleMirrorMiss_failure:
  assumes "fst (fetchWithRedirectValidation rt nw cfg al inbound upstreamUrl method trace) = Inl message"
  shows "fst (handleMirrorMiss rt nw cfg al rh rc inbound method slug target upstreamUrl r trace)
           = proxyErrorReply r message"
  using assms
  by (cases "fetchWithRedirectValidation rt nw cfg al inbound upstreamUrl method trace")
     (simp add: handleMirrorMiss_def)

lemma postApiResolve_failure:
  assumes "\<not> serviceDisabled" "1 \<le> length raw" "length raw \<le> 2000"
    and "resolveTargetUrl rt lookup cfg al dr db raw = (Inl message, db)"
    and "\<not> list_ex (\<lambda>e. event_id e = ''evt_'' @ draw_event dr') (events db)"
  shows "code (fst (postApiResolve rt lookup cfg al serviceDisabled dr dr' db (Some raw) r))
           = resolveErrorStatus message
       \<and> sent (fst (postApiResolve rt lookup cfg al serviceDisabled dr dr' db (Some raw) r))
           = Failure message"
proof -
  from assms(2) have "raw \<noteq> []" by auto
  with assms show ?thesis
    by (simp add: postApiResolve_def logEvent_def Let_def reply_send_def reply_code_def)
qed

text \<open>
  Claim C9, as the code has it. A mirrored request whose guarded fetch fails with
  \<^verbatim>\<open>dns_resolution_failed\<close> is answered with status 502 and that error. The handler of
  \<^verbatim>\<open>POST /api/resolve\<close> answers the same failure of \<^verbatim>\<open>resolveTargetUrl\<close> with status 400,
  the default of its own error mapping (here for a valid body, the service enabled and a
  fresh identifier for the event row it writes).
\<close>

theorem dns_resolution_failed_status_by_route:
  "(fst (fetchWithRedirectValidation rt nw cfg al inbound upstreamUrl method trace)
       = Inl ''dns_resolution_failed'' \<longrightarrow>
      code (fst (handleMirrorMiss rt nw cfg al rewriteHtml rewriteCss inbound method slug target
                   upstreamUrl r trace)) = 502
    \<and> sent (fst (handleMirrorMiss rt nw cfg al rewriteHtml rewriteCss inbound method slug target
                   upstreamUrl r trace)) = Failure ''dns_resolution_failed'')
   \<and> (\<not> serviceDisabled \<and> 1 \<le> length raw \<and> length raw \<le> 2000
       \<and> fst (resolveTargetUrl rt lookup cfg al dr db raw) = Inl ''dns_resolution_failed''
       \<and> \<not> list_ex (\<lambda>e. event_id e = ''evt_'' @ draw_event dr') (events db) \<longrightarrow>
      code (fst (postApiResolve rt lookup cfg al serviceDisabled dr dr' db (Some raw) r)) = 400
    \<and> sent (fst (postApiResolve rt lookup cfg al serviceDisabled dr dr' db (Some raw) r))
        = Failure ''dns_resolution_failed'')"
proof (intro conjI impI)
  assume f: "fst (fetchWithRedirectValidation rt nw cfg al inbound upstreamUrl method trace)
       = Inl ''dns_resolution_failed''"
  note h = handleMirrorMiss_failure [OF f]
  show "code (fst (handleMirrorMiss rt nw cfg al rewriteHtml rewriteCss inbound method slug target
                   upstreamUrl r trace)) = 502"
    by (simp add: h code_proxyErrorReply proxyErrorStatus_def)
  show "sent (fst (handleMirrorMiss rt nw cfg al rewriteHtml rewriteCss inbound method slug target
                   upstreamUrl r trace)) = Failure ''dns_resolution_failed''"
    by (simp add: h sent_proxyErrorReply)
next
  assume a: "\<not> serviceDisabled \<and> 1 \<le> length raw \<and> length raw \<le> 2000
       \<and> fst (resolveTargetUrl rt lookup cfg al dr db raw) = Inl ''dns_resolution_failed''
       \<and> \<not> list_ex (\<lambda>e. event_id e = ''evt_'' @ draw_event dr') (events db)"
  obtain db' where r: "resolveTargetUrl rt lookup cfg al dr db raw = (Inl ''dns_resolution_failed'', db')"
    using a by (cases "resolveTargetUrl rt lookup cfg al dr db raw") simp
  from resolveTargetUrl_error_cases [OF r] have "db' = db" by simp
  with r have r': "resolveTargetUrl rt lookup cfg al dr db raw = (Inl ''dns_resolution_failed'', db)"
    by simp
  from a have b: "\<not> serviceDisabled" "1 \<le> length raw" "length raw \<le> 2000"
    "\<not> list_ex (\<lambda>e. event_id e = ''evt_'' @ draw_event dr') (events db)" by simp_all
  note p = postApiResolve_failure [OF b(1) b(2) b(3) r' b(4), of r]
  from p show "code (fst (postApiResolve rt lookup cfg al serviceDisabled dr dr' db (Some raw) r)) = 400"
    by (simp add: resolveErrorStatus_def)
  from p show "sent (fst (postApiResolve rt lookup cfg al serviceDisabled dr dr' db (Some raw) r))
        = Failure ''dns_resolution_failed''"
    by simp
qed

lemma guard_silent_dns:
  "protocol u = ''https:'' \<Longrightarrow> username u = [] \<Longrightarrow> password u = [] \<Longrightarrow> hostname u = ''example.com'' \<Longrightarrow>
   assertSafeUrl (\<lambda>_. False) (\<lambda>host. Inr []) u allowHttp = Inl ''dns_resolution_failed''"
  by (simp add: assertSafeUrl_def assertSafeResolvedHost_def assertSafeHostname_def
      trim_def trimStart_def trimEnd_def isSpace_def toLowerCase_def toLowerChar_def
      endsWith_def net_isIP_def isIPv4_def isV4Seg_def Let_def)

lemma resolve_silent_dns:
  "resolveTargetUrl example_runtime (\<lambda>host. Inr []) example_config example_allowlist example_draws
     empty_db ''https://example.com/foo'' = (Inl ''dns_resolution_failed'', empty_db)"
  using guard_silent_dns [of example_url False]
  by (simp add: resolveTargetUrl_def example_runtime_def example_config_def)
     (simp add: example_url_def)

lemma fetch_silent_dns:
  "fst (fetchWithRedirectValidation example_runtime silent_dns_network example_config example_allowlist
          Map.empty example_url ''GET'' []) = Inl ''dns_resolution_failed''"
  using guard_silent_dns [of example_url False]
  by (simp add: fetchWithRedirectValidation_def fetchLoop.simps [of _ _ _ _ _ _ 0] Let_def
      example_runtime_def silent_dns_network_def example_config_def)
     (simp add: example_url_def)

text \<open>
  With a resolver that answers no address, \<^verbatim>\<open>POST /api/resolve\<close> of an allowlisted URL
  replies \<^verbatim>\<open>dns_resolution_failed\<close> with status 400, not 502.
\<close>

theorem api_resolve_dns_failure_is_400:
  "sent (fst (postApiResolve example_runtime (\<lambda>host. Inr []) example_config example_allowlist False
           example_draws example_draws' empty_db (Some ''https://example.com/foo'') onRequestReply))
     = Failure ''dns_resolution_failed''
   \<and> code (fst (postApiResolve example_runtime (\<lambda>host. Inr []) example_config example_allowlist False
           example_draws example_draws' empty_db (Some ''https://example.com/foo'') onRequestReply))
     = 400
   \<and> code (fst (postApiResolve example_runtime (\<lambda>host. Inr []) example_config example_allowlist False
           example_draws example_draws' empty_db (Some ''https://example.com/foo'') onRequestReply))
     \<noteq> 502"
  by (simp add: postApiResolve_def resolve_silent_dns resolveErrorStatus_def logEvent_def Let_def
      empty_db_def [symmetric] reply_send_def reply_code_def)
     (simp add: empty_db_def)

theorem dns_resolution_failed_status_by_route_witness:
  "fst (fetchWithRedirectValidation example_runtime silent_dns_network example_config example_allowlist
          Map.empty example_url ''GET'' []) = Inl ''dns_resolution_failed''
   \<and> code (fst (handleMirrorMiss example_runtime silent_dns_network example_config example_allowlist
                  (\<lambda>body base target slug. body) (\<lambda>body base target slug. body) Map.empty ''GET''
                  ''example-com'' example_url example_url onRequestReply [])) = 502
   \<and> fst (resolveTargetUrl example_runtime (\<lambda>host. Inr []) example_config example_allowlist
            example_draws empty_db ''https://example.com/foo'') = Inl ''dns_resolution_failed''
   \<and> code (fst (postApiResolve example_runtime (\<lambda>host. Inr []) example_config example_allowlist False
           example_draws example_draws' empty_db (Some ''https://example.com/foo'') onRequestReply))
     = 400"
proof -
  note t = dns_resolution_failed_status_by_route
    [of example_runtime silent_dns_network example_config example_allowlist Map.empty example_url
        "''GET''" "[]" "\<lambda>body base target slug. body" "\<lambda>body base target slug. body"
        "''example-com''" example_url onRequestReply False "''https://example.com/foo''"
        "\<lambda>host. Inr []" example_draws empty_db example_draws']
  have e: "\<not> list_ex (\<lambda>e. event_id e = ''evt_'' @ draw_event example_draws') (events empty_db)"
    by (simp add: empty_db_def)
  have l: "1 \<le> length ''https://example.com/foo''" "length ''https://example.com/foo'' \<le> 2000"
    by simp_all
  from t fetch_silent_dns resolve_silent_dns e l show ?thesis by simp
qed

section \<open>Every upstream request is validated first, and redirects are bounded\<close>

lemma fetchLoop_done: "\<not> hop < 5 \<Longrightarrow>
  fetchLoop rt nw cfg al method hdrs hop current trace = (Inl ''too_many_redirects'', trace)"
  by (subst fetchLoop.simps) simp

lemma validatedFetches_init: "validatedFetches rt nw cfg al (length tr) tr"
  by (auto simp add: validatedFetches_def)

lemma validatedFetches_snoc:
  assumes "validatedFetches rt nw cfg al t0 tr" and "\<And>v. e \<noteq> FetchEv v"
  shows "validatedFetches rt nw cfg al t0 (tr @ [e])"
  unfolding validatedFetches_def
proof (intro allI impI)
  fix pre v post
  assume h: "tr @ [e] = pre @ FetchEv v # post \<and> t0 \<le> length pre"
  show "\<exists>before. pre = before @ [GuardEv v (Inr ()), MatchEv v True] \<and> t0 \<le> length before \<and>
           assertSafeUrl (rt_isIPv6 rt) (net_lookup nw (length before)) v (MIRROR_ENABLE_HTTP cfg) = Inr () \<and>
           allowlist_match al v \<noteq> None"
  proof (cases post rule: rev_cases)
    case Nil
    with h have "e = FetchEv v" by simp
    with assms(2) [of v] show ?thesis by simp
  next
    case (snoc post' x)
    with h have "tr @ [e] = (pre @ FetchEv v # post') @ [x]" by simp
    then have "tr = pre @ FetchEv v # post'" by (simp only: append1_eq_conv)
    with assms(1) h show ?thesis unfolding validatedFetches_def by blast
  qed
qed

lemma validatedFetches_fetch:
  assumes "validatedFetches rt nw cfg al t0 tr" and "t0 \<le> length tr"
    and "assertSafeUrl (rt_isIPv6 rt) (net_lookup nw (length tr)) u (MIRROR_ENABLE_HTTP cfg) = Inr ()"
    and "allowlist_match al u \<noteq> None"
  shows "validatedFetches rt nw cfg al t0 (tr @ [GuardEv u (Inr ()), MatchEv u True, FetchEv u])"
  unfolding validatedFetches_def
proof (intro allI impI)
  fix pre v post
  assume h: "tr @ [GuardEv u (Inr ()), MatchEv u True, FetchEv u] = pre @ FetchEv v # post
               \<and> t0 \<le> length pre"
  have two: "validatedFetches rt nw cfg al t0 ((tr @ [GuardEv u (Inr ())]) @ [MatchEv u True])"
    by (intro validatedFetches_snoc assms(1)) simp_all
  show "\<exists>before. pre = before @ [GuardEv v (Inr ()), MatchEv v True] \<and> t0 \<le> length before \<and>
           assertSafeUrl (rt_isIPv6 rt) (net_lookup nw (length before)) v (MIRROR_ENABLE_HTTP cfg) = Inr () \<and>
           allowlist_match al v \<noteq> None"
  proof (cases post rule: rev_cases)
    case Nil
    with h have "pre = tr @ [GuardEv u (Inr ()), MatchEv u True]" "v = u" by auto
    with assms show ?thesis by simp
  next
    case (snoc post' x)
    with h have "(tr @ [GuardEv u (Inr ()), MatchEv u True]) @ [FetchEv u]
                   = (pre @ FetchEv v # post') @ [x]" by simp
    then have "(tr @ [GuardEv u (Inr ())]) @ [MatchEv u True] = pre @ FetchEv v # post'"
      by simp
    with two h show ?thesis unfolding validatedFetches_def by blast
  qed
qed

lemma fetchLoop_unfold:
  assumes "hop < 5"
  shows "fetchLoop rt nw cfg al method hdrs hop current trace =
     (case assertSafeUrl (rt_isIPv6 rt) (net_lookup nw (length trace)) current (MIRROR_ENABLE_HTTP cfg) of
        Inl e \<Rightarrow> (Inl e, trace @ [GuardEv current (Inl e)])
      | Inr _ \<Rightarrow>
          if allowlist_match al current = None
          then (Inl ''domain_not_allowed'', trace @ [GuardEv current (Inr ()), MatchEv current False])
          else
            (case net_fetch nw (length trace + 2) method hdrs current of
               Inl e \<Rightarrow> (Inl e, trace @ [GuardEv current (Inr ()), MatchEv current True, FetchEv current])
             | Inr resp \<Rightarrow>
                (case redirectLocation resp of
                   None \<Rightarrow> (Inr (resp, current),
                             trace @ [GuardEv current (Inr ()), MatchEv current True, FetchEv current])
                 | Some loc \<Rightarrow>
                    (case rt_resolveUrl rt loc current of
                       None \<Rightarrow> (Inl ''Invalid URL'',
                                 trace @ [GuardEv current (Inr ()), MatchEv current True, FetchEv current])
                     | Some nxt \<Rightarrow>
                        (case assertSafeUrl (rt_isIPv6 rt) (net_lookup nw (length trace + 3)) nxt
                                (MIRROR_ENABLE_HTTP cfg) of
                           Inl e \<Rightarrow> (Inl e, trace @ [GuardEv current (Inr ()), MatchEv current True,
                                                    FetchEv current, GuardEv nxt (Inl e)])
                         | Inr _ \<Rightarrow>
                            if allowlist_match al nxt = None
                            then (Inl ''domain_not_allowed'',
                                  trace @ [GuardEv current (Inr ()), MatchEv current True,
                                           FetchEv current, GuardEv nxt (Inr ()), MatchEv nxt False])
                            else fetchLoop rt nw cfg al method hdrs (hop + 1) nxt
                                   (trace @ [GuardEv current (Inr ()), MatchEv current True,
                                             FetchEv current, GuardEv nxt (Inr ()), MatchEv nxt True]))))))"
  using assms
  by (subst fetchLoop.simps)
     (simp add: Let_def numeral_2_eq_2 numeral_3_eq_3 split: sum.splits option.splits)

lemma fetchLoop_validated:
  "validatedFetches rt nw cfg al t0 trace \<Longrightarrow> t0 \<le> length trace \<Longrightarrow>
   validatedFetches rt nw cfg al t0 (snd (fetchLoop rt nw cfg al method hdrs hop current trace))
   \<and> (\<exists>new. snd (fetchLoop rt nw cfg al method hdrs hop current trace) = trace @ new)"
proof (induction "5 - hop" arbitrary: hop current trace)
  case 0
  then have "\<not> hop < 5" by simp
  with 0 show ?case by (simp add: fetchLoop_done)
next
  case (Suc n)
  then have hop: "hop < 5" and n: "n = 5 - (hop + 1)" by simp_all
  note v = Suc.prems(1) and t = Suc.prems(2)
  let ?g = "assertSafeUrl (rt_isIPv6 rt) (net_lookup nw (length trace)) current (MIRROR_ENABLE_HTTP cfg)"
  have v1: "validatedFetches rt nw cfg al t0 (trace @ [GuardEv current x])" for x
    by (intro validatedFetches_snoc v) simp
  have v2: "validatedFetches rt nw cfg al t0 (trace @ [GuardEv current x, MatchEv current b])" for x b
    using validatedFetches_snoc [OF v1 [of x], of "MatchEv current b"] by simp
  show ?case
  proof (cases "?g = Inr () \<and> allowlist_match al current \<noteq> None")
    case False
    then show ?thesis
      unfolding fetchLoop_unfold [OF hop]
      by (auto simp add: v1 v2 split: sum.splits)
  next
    case True
    let ?t3 = "trace @ [GuardEv current (Inr ()), MatchEv current True, FetchEv current]"
    from True have v3: "validatedFetches rt nw cfg al t0 ?t3"
      by (intro validatedFetches_fetch v t) simp_all
    have v4: "validatedFetches rt nw cfg al t0
        (trace @ [GuardEv current (Inr ()), MatchEv current True, FetchEv current, GuardEv nxt x])" for nxt x
      using validatedFetches_snoc [OF v3, of "GuardEv nxt x"] by simp
    have v5: "validatedFetches rt nw cfg al t0
        (trace @ [GuardEv current (Inr ()), MatchEv current True, FetchEv current, GuardEv nxt x,
                  MatchEv nxt b])" for nxt x b
      using validatedFetches_snoc [OF v4 [of nxt x], of "MatchEv nxt b"] by simp
    have rec: "validatedFetches rt nw cfg al t0
          (snd (fetchLoop rt nw cfg al method hdrs (hop + 1) nxt
             (trace @ [GuardEv current (Inr ()), MatchEv current True, FetchEv current,
                       GuardEv nxt (Inr ()), MatchEv nxt True])))
        \<and> (\<exists>new. snd (fetchLoop rt nw cfg al method hdrs (hop + 1) nxt
             (trace @ [GuardEv current (Inr ()), MatchEv current True, FetchEv current,
                       GuardEv nxt (Inr ()), MatchEv nxt True])) = trace @ new)" for nxt
    proof -
      let ?t5 = "trace @ [GuardEv current (Inr ()), MatchEv current True, FetchEv current,
                       GuardEv nxt (Inr ()), MatchEv nxt True]"
      have "t0 \<le> length ?t5" using t by simp
      from Suc.hyps(1) [OF n v5 [of nxt "Inr ()" True] this, where current = nxt]
      obtain new where a: "validatedFetches rt nw cfg al t0
          (snd (fetchLoop rt nw cfg al method hdrs (hop + 1) nxt ?t5))"
        and b: "snd (fetchLoop rt nw cfg al method hdrs (hop + 1) nxt ?t5) = ?t5 @ new" by blast
      from b have "snd (fetchLoop rt nw cfg al method hdrs (hop + 1) nxt ?t5)
          = trace @ ([GuardEv current (Inr ()), MatchEv current True, FetchEv current,
                       GuardEv nxt (Inr ()), MatchEv nxt True] @ new)" by simp
      with a show ?thesis by blast
    qed
    from True have g: "?g = Inr ()" and m: "allowlist_match al current \<noteq> None" by simp_all
    show ?thesis
    proof (cases "net_fetch nw (length trace + 2) method hdrs current")
      case (Inl e)
      with g m v3 show ?thesis by (auto simp add: fetchLoop_unfold [OF hop])
    next
      case (Inr resp)
      note f = this
      show ?thesis
      proof (cases "redirectLocation resp")
        case None
        with g m f v3 show ?thesis by (auto simp add: fetchLoop_unfold [OF hop])
      next
        case (Some loc)
        note l = this
        show ?thesis
        proof (cases "rt_resolveUrl rt loc current")
          case None
          with g m f l v3 show ?thesis by (auto simp add: fetchLoop_unfold [OF hop])
        next
          case (Some nxt)
          note r = this
          show ?thesis
          proof (cases "assertSafeUrl (rt_isIPv6 rt) (net_lookup nw (length trace + 3)) nxt
                          (MIRROR_ENABLE_HTTP cfg)")
            case (Inl e)
            with g m f l r v4 [of nxt "Inl e"] show ?thesis by (auto simp add: fetchLoop_unfold [OF hop])
          next
            case (Inr u)
            note g' = this
            show ?thesis
            proof (cases "allowlist_match al nxt = None")
              case True
              with g m f l r g' v5 [of nxt "Inr ()" False] show ?thesis
                by (auto simp add: fetchLoop_unfold [OF hop])
            next
              case False
              with g m f l r g' rec [of nxt] show ?thesis
                by (auto simp add: fetchLoop_unfold [OF hop])
            qed
          qed
        qed
      qed
    qed
  qed
qed

lemma fetchLoop_extends:
  "\<exists>new. snd (fetchLoop rt nw cfg al method hdrs hop current trace) = trace @ new"
  using fetchLoop_validated [OF validatedFetches_init, of trace rt nw cfg al "method" hdrs hop current]
  by simp

lemma fetchLoop_fetches_current:
  assumes hop: "hop < 5"
    and g: "assertSafeUrl (rt_isIPv6 rt) (net_lookup nw (length trace)) current (MIRROR_ENABLE_HTTP cfg) = Inr ()"
    and m: "allowlist_match al current \<noteq> None"
  shows "\<exists>new. snd (fetchLoop rt nw cfg al method hdrs hop current trace)
           = (trace @ [GuardEv current (Inr ()), MatchEv current True]) @ FetchEv current # new"
proof -
  have rec: "\<exists>new. snd (fetchLoop rt nw cfg al method hdrs (hop + 1) nxt
             (trace @ [GuardEv current (Inr ()), MatchEv current True, FetchEv current,
                       GuardEv nxt (Inr ()), MatchEv nxt True]))
           = (trace @ [GuardEv current (Inr ()), MatchEv current True]) @ FetchEv current # new" for nxt
  proof -
    let ?t5 = "trace @ [GuardEv current (Inr ()), MatchEv current True, FetchEv current,
                       GuardEv nxt (Inr ()), MatchEv nxt True]"
    from fetchLoop_extends [of rt nw cfg al "method" hdrs "hop + 1" nxt ?t5]
    obtain new where "snd (fetchLoop rt nw cfg al method hdrs (hop + 1) nxt ?t5) = ?t5 @ new" ..
    then have "snd (fetchLoop rt nw cfg al method hdrs (hop + 1) nxt ?t5)
      = (trace @ [GuardEv current (Inr ()), MatchEv current True]) @ FetchEv current #
          ([GuardEv nxt (Inr ()), MatchEv nxt True] @ new)" by simp
    then show ?thesis by blast
  qed
  show ?thesis
    using g m rec
    by (auto simp add: fetchLoop_unfold [OF hop] split: sum.splits option.splits)
qed

lemma fetchLoop_depends:
  assumes lk: "net_lookup nw' = net_lookup nw"
  shows "(\<forall>pre v post. snd (fetchLoop rt nw cfg al method hdrs hop current trace) = pre @ FetchEv v # post
            \<and> length trace \<le> length pre \<longrightarrow>
            net_fetch nw' (length pre) method hdrs v = net_fetch nw (length pre) method hdrs v) \<Longrightarrow>
         fetchLoop rt nw' cfg al method hdrs hop current trace
           = fetchLoop rt nw cfg al method hdrs hop current trace"
proof (induction "5 - hop" arbitrary: hop current trace)
  case 0
  then have "\<not> hop < 5" by simp
  then show ?case by (simp add: fetchLoop_done)
next
  case (Suc n)
  then have hop: "hop < 5" and n: "n = 5 - (hop + 1)" by simp_all
  note agree = Suc.prems
  let ?g = "assertSafeUrl (rt_isIPv6 rt) (net_lookup nw (length trace)) current (MIRROR_ENABLE_HTTP cfg)"
  show ?case
  proof (cases "?g = Inr () \<and> allowlist_match al current \<noteq> None")
    case False
    then show ?thesis
      by (auto simp add: fetchLoop_unfold [OF hop] lk split: sum.splits)
  next
    case True
    then have g: "?g = Inr ()" and m: "allowlist_match al current \<noteq> None" by simp_all
    from fetchLoop_fetches_current [OF hop g m, of "method" hdrs]
    obtain new where "snd (fetchLoop rt nw cfg al method hdrs hop current trace)
           = (trace @ [GuardEv current (Inr ()), MatchEv current True]) @ FetchEv current # new" ..
    with agree have
      "net_fetch nw' (length (trace @ [GuardEv current (Inr ()), MatchEv current True])) method hdrs current
         = net_fetch nw (length (trace @ [GuardEv current (Inr ()), MatchEv current True])) method hdrs current"
      by (metis length_append le_add1)
    then have f: "net_fetch nw' (length trace + 2) method hdrs current
         = net_fetch nw (length trace + 2) method hdrs current" by simp
    have rec: "fetchLoop rt nw' cfg al method hdrs (hop + 1) nxt
             (trace @ [GuardEv current (Inr ()), MatchEv current True, FetchEv current,
                       GuardEv nxt (Inr ()), MatchEv nxt True])
         = fetchLoop rt nw cfg al method hdrs (hop + 1) nxt
             (trace @ [GuardEv current (Inr ()), MatchEv current True, FetchEv current,
                       GuardEv nxt (Inr ()), MatchEv nxt True])"
      if same: "fetchLoop rt nw cfg al method hdrs hop current trace
         = fetchLoop rt nw cfg al method hdrs (hop + 1) nxt
             (trace @ [GuardEv current (Inr ()), MatchEv current True, FetchEv current,
                       GuardEv nxt (Inr ()), MatchEv nxt True])" for nxt
    proof (rule Suc.hyps(1) [OF n], intro allI impI)
      fix pre v post
      let ?t5 = "trace @ [GuardEv current (Inr ()), MatchEv current True, FetchEv current,
                       GuardEv nxt (Inr ()), MatchEv nxt True]"
      assume "snd (fetchLoop rt nw cfg al method hdrs (hop + 1) nxt ?t5) = pre @ FetchEv v # post
              \<and> length ?t5 \<le> length pre"
      with same have "snd (fetchLoop rt nw cfg al method hdrs hop current trace) = pre @ FetchEv v # post
              \<and> length trace \<le> length pre" by simp
      with agree show "net_fetch nw' (length pre) method hdrs v = net_fetch nw (length pre) method hdrs v"
        by blast
    qed
    show ?thesis
    proof (cases "net_fetch nw (length trace + 2) method hdrs current")
      case (Inl e)
      with g m f show ?thesis by (auto simp add: fetchLoop_unfold [OF hop] lk)
    next
      case (Inr resp)
      note fr = this
      show ?thesis
      proof (cases "redirectLocation resp")
        case None
        with g m f fr show ?thesis by (auto simp add: fetchLoop_unfold [OF hop] lk)
      next
        case (Some loc)
        note l = this
        show ?thesis
        proof (cases "rt_resolveUrl rt loc current")
          case None
          with g m f fr l show ?thesis by (auto simp add: fetchLoop_unfold [OF hop] lk)
        next
          case (Some nxt)
          note r = this
          show ?thesis
          proof (cases "assertSafeUrl (rt_isIPv6 rt) (net_lookup nw (length trace + 3)) nxt
                          (MIRROR_ENABLE_HTTP cfg)")
            case (Inl e)
            with g m f fr l r show ?thesis by (auto simp add: fetchLoop_unfold [OF hop] lk)
          next
            case (Inr u)
            note g' = this
            show ?thesis
            proof (cases "allowlist_match al nxt = None")
              case True
              with g m f fr l r g' show ?thesis by (auto simp add: fetchLoop_unfold [OF hop] lk)
            next
              case False
              with g m fr l r g' have same: "fetchLoop rt nw cfg al method hdrs hop current trace
                 = fetchLoop rt nw cfg al method hdrs (hop + 1) nxt
                     (trace @ [GuardEv current (Inr ()), MatchEv current True, FetchEv current,
                               GuardEv nxt (Inr ()), MatchEv nxt True])"
                by (auto simp add: fetchLoop_unfold [OF hop])
              from False g m f fr l r g' have "fetchLoop rt nw' cfg al method hdrs hop current trace
                 = fetchLoop rt nw' cfg al method hdrs (hop + 1) nxt
                     (trace @ [GuardEv current (Inr ()), MatchEv current True, FetchEv current,
                               GuardEv nxt (Inr ()), MatchEv nxt True])"
                by (auto simp add: fetchLoop_unfold [OF hop] lk)
              with same rec [OF same] show ?thesis by simp
            qed
          qed
        qed
      qed
    qed
  qed
qed

lemma fetchLoop_redirectChain:
  "redirectChain rt nw cfg al method hdrs n u (length trace) \<Longrightarrow> hop + n = 5 \<Longrightarrow>
   fst (fetchLoop rt nw cfg al method hdrs hop u trace) = Inl ''too_many_redirects''"
proof (induction n arbitrary: hop u trace)
  case 0
  then show ?case by (simp add: fetchLoop_done)
next
  case (Suc n)
  from Suc.prems(2) have hop: "hop < 5" and h': "(hop + 1) + n = 5" by simp_all
  from Suc.prems(1) obtain resp loc "next" where
    g: "assertSafeUrl (rt_isIPv6 rt) (net_lookup nw (length trace)) u (MIRROR_ENABLE_HTTP cfg) = Inr ()"
    and m: "allowlist_match al u \<noteq> None"
    and f: "net_fetch nw (length trace + 2) method hdrs u = Inr resp"
    and l: "redirectLocation resp = Some loc"
    and r: "rt_resolveUrl rt loc u = Some next"
    and g': "assertSafeUrl (rt_isIPv6 rt) (net_lookup nw (length trace + 3)) next (MIRROR_ENABLE_HTTP cfg) = Inr ()"
    and m': "allowlist_match al next \<noteq> None"
    and c: "redirectChain rt nw cfg al method hdrs n next (length trace + 5)"
    by (auto split: sum.splits option.splits)
  let ?trace5 = "trace @ [GuardEv u (Inr ()), MatchEv u True, FetchEv u, GuardEv next (Inr ()),
      MatchEv next True]"
  have f2: "net_fetch nw (Suc (Suc (length trace))) method hdrs u = Inr resp"
    using f by (simp add: numeral_2_eq_2)
  have g3: "assertSafeUrl (rt_isIPv6 rt) (net_lookup nw (Suc (Suc (Suc (length trace))))) next
      (MIRROR_ENABLE_HTTP cfg) = Inr ()"
    using g' by (simp add: numeral_3_eq_3)
  have step: "fetchLoop rt nw cfg al method hdrs hop u trace
      = fetchLoop rt nw cfg al method hdrs (hop + 1) next ?trace5"
    using hop g m f2 l r g3 m'
    by (subst fetchLoop.simps) (auto simp add: Let_def)
  have "length ?trace5 = length trace + 5" by simp
  with c have "redirectChain rt nw cfg al method hdrs n next (length ?trace5)" by (simp only:)
  from Suc.IH [OF this h'] step show ?case by simp
qed

text \<open>
  Claim C1. Whatever the resolver and the upstream answer, every request that
  \<^verbatim>\<open>fetchWithRedirectValidation\<close> records for a URL \<open>v\<close> (the initial URL or a redirect
  target) comes directly after an evaluation of \<^verbatim>\<open>assertSafeUrl\<close> on \<open>v\<close> and an allowlist
  match on \<open>v\<close>, and both succeed: \<^const>\<open>assertSafeUrl\<close>, with the resolver as it answers at
  the time of that entry of the trace, returns normally on \<open>v\<close>, and \<^const>\<open>allowlist_match\<close>
  finds an entry for \<open>v\<close>. The call consults the upstream through the recorded requests
  only: on a network with the same resolver that answers these requests alike, it returns
  the same result and the same trace. And when a chain of five validated redirects starts
  at the upstream URL, the call fails with \<^verbatim>\<open>too_many_redirects\<close>.
\<close>

theorem fetchWithRedirectValidation_guards_every_fetch:
  "(\<exists>new. snd (fetchWithRedirectValidation rt nw cfg al inbound upstreamUrl method trace) = trace @ new)
   \<and> (\<forall>pre v post.
         snd (fetchWithRedirectValidation rt nw cfg al inbound upstreamUrl method trace)
           = pre @ FetchEv v # post \<and> length trace \<le> length pre \<longrightarrow>
         (\<exists>before. pre = before @ [GuardEv v (Inr ()), MatchEv v True] \<and> length trace \<le> length before \<and>
            assertSafeUrl (rt_isIPv6 rt) (net_lookup nw (length before)) v (MIRROR_ENABLE_HTTP cfg) = Inr () \<and>
            allowlist_match al v \<noteq> None))
   \<and> (\<forall>nw'. net_lookup nw' = net_lookup nw \<and>
         (\<forall>pre v post.
            snd (fetchWithRedirectValidation rt nw cfg al inbound upstreamUrl method trace)
              = pre @ FetchEv v # post \<and> length trace \<le> length pre \<longrightarrow>
            net_fetch nw' (length pre) method (sanitizeOutgoingHeaders inbound) v
              = net_fetch nw (length pre) method (sanitizeOutgoingHeaders inbound) v) \<longrightarrow>
         fetchWithRedirectValidation rt nw' cfg al inbound upstreamUrl method trace
           = fetchWithRedirectValidation rt nw cfg al inbound upstreamUrl method trace)
   \<and> (redirectChain rt nw cfg al method (sanitizeOutgoingHeaders inbound) 5 upstreamUrl (length trace)
        \<longrightarrow> fst (fetchWithRedirectValidation rt nw cfg al inbound upstreamUrl method trace)
              = Inl ''too_many_redirects'')"
proof (intro conjI allI impI)
  show "\<exists>new. snd (fetchWithRedirectValidation rt nw cfg al inbound upstreamUrl method trace) = trace @ new"
    unfolding fetchWithRedirectValidation_def by (rule fetchLoop_extends)
next
  fix pre v post
  assume "snd (fetchWithRedirectValidation rt nw cfg al inbound upstreamUrl method trace)
           = pre @ FetchEv v # post \<and> length trace \<le> length pre"
  moreover have "validatedFetches rt nw cfg al (length trace)
      (snd (fetchWithRedirectValidation rt nw cfg al inbound upstreamUrl method trace))"
    unfolding fetchWithRedirectValidation_def
    using fetchLoop_validated [OF validatedFetches_init, of trace] by simp
  ultimately show "\<exists>before. pre = before @ [GuardEv v (Inr ()), MatchEv v True] \<and> length trace \<le> length before \<and>
            assertSafeUrl (rt_isIPv6 rt) (net_lookup nw (length before)) v (MIRROR_ENABLE_HTTP cfg) = Inr () \<and>
            allowlist_match al v \<noteq> None"
    unfolding validatedFetches_def by blast
next
  fix nw' :: network
  assume h: "net_lookup nw' = net_lookup nw \<and>
         (\<forall>pre v post.
            snd (fetchWithRedirectValidation rt nw cfg al inbound upstreamUrl method trace)
              = pre @ FetchEv v # post \<and> length trace \<le> length pre \<longrightarrow>
            net_fetch nw' (length pre) method (sanitizeOutgoingHeaders inbound) v
              = net_fetch nw (length pre) method (sanitizeOutgoingHeaders inbound) v)"
  then have lk: "net_lookup nw' = net_lookup nw" by simp
  from h show "fetchWithRedirectValidation rt nw' cfg al inbound upstreamUrl method trace
           = fetchWithRedirectValidation rt nw cfg al inbound upstreamUrl method trace"
    unfolding fetchWithRedirectValidation_def
    by (intro fetchLoop_depends [OF lk]) simp
next
  assume "redirectChain rt nw cfg al method (sanitizeOutgoingHeaders inbound) 5 upstreamUrl (length trace)"
  then show "fst (fetchWithRedirectValidation rt nw cfg al inbound upstreamUrl method trace)
              = Inl ''too_many_redirects''"
    unfolding fetchWithRedirectValidation_def
    by (rule fetchLoop_redirectChain) simp
qed

subsection \<open>A chain of redirects on the example network\<close>

lemma example_chain_facts:
  assumes "protocol u = ''https:''" "username u = []" "password u = []" "hostname u = ''example.com''"
  shows "assertSafeUrl (rt_isIPv6 example_runtime) (net_lookup example_network t) u
           (MIRROR_ENABLE_HTTP example_config) = Inr ()"
    and "allowlist_match example_allowlist u = Some (hd example_allowlist)"
    and "net_fetch example_network t method hdrs u
           = Inr \<lparr>resp_status = 302, resp_headers = [(''location'', ''/next'')], resp_body = []\<rparr>"
    and "redirectLocation \<lparr>resp_status = 302, resp_headers = [(''location'', ''/next'')], resp_body = []\<rparr>
           = Some ''/next''"
    and "rt_resolveUrl example_runtime ''/next'' u = Some (u\<lparr>pathname := ''/next'', search := []\<rparr>)"
proof -
  show "assertSafeUrl (rt_isIPv6 example_runtime) (net_lookup example_network t) u
           (MIRROR_ENABLE_HTTP example_config) = Inr ()"
    using guard_example_host [OF assms] by (simp add: example_runtime_def example_network_def)
  show "allowlist_match example_allowlist u = Some (hd example_allowlist)"
    using assms by (simp add: match_example_host)
  show "net_fetch example_network t method hdrs u
           = Inr \<lparr>resp_status = 302, resp_headers = [(''location'', ''/next'')], resp_body = []\<rparr>"
    by (simp add: example_network_def)
  show "redirectLocation \<lparr>resp_status = 302, resp_headers = [(''location'', ''/next'')], resp_body = []\<rparr>
           = Some ''/next''"
    by (simp add: redirectLocation_def headers_get_def toLowerCase_def toLowerChar_def)
  show "rt_resolveUrl example_runtime ''/next'' u = Some (u\<lparr>pathname := ''/next'', search := []\<rparr>)"
    by (simp add: example_runtime_def startsWith_def)
qed

lemma example_chain:
  assumes "protocol u = ''https:''" "username u = []" "password u = []" "hostname u = ''example.com''"
  shows "redirectChain example_runtime example_network example_config example_allowlist method hdrs
           n u t"
  using assms
proof (induction n arbitrary: u t)
  case 0
  then show ?case by simp
next
  case (Suc n)
  note f = example_chain_facts [OF Suc.prems]
  have n: "protocol (u\<lparr>pathname := ''/next'', search := []\<rparr>) = ''https:''"
    "username (u\<lparr>pathname := ''/next'', search := []\<rparr>) = []"
    "password (u\<lparr>pathname := ''/next'', search := []\<rparr>) = []"
    "hostname (u\<lparr>pathname := ''/next'', search := []\<rparr>) = ''example.com''"
    using Suc.prems by simp_all
  note f' = example_chain_facts [OF n]
  from Suc.IH [OF n] show ?case
    by (simp add: f f')
qed

lemma example_first_events:
  "take 3 (snd (fetchWithRedirectValidation example_runtime example_network example_config
                  example_allowlist Map.empty example_url ''GET'' []))
   = [GuardEv example_url (Inr ()), MatchEv example_url True, FetchEv example_url]"
proof -
  have u: "protocol example_url = ''https:''" "username example_url = []" "password example_url = []"
    "hostname example_url = ''example.com''"
    by (simp_all add: example_url_def)
  note f = example_chain_facts [OF u]
  have n: "protocol next_url = ''https:''" "username next_url = []" "password next_url = []"
    "hostname next_url = ''example.com''"
    by (simp_all add: next_url_def example_url_def)
  note f' = example_chain_facts [OF n]
  let ?hdrs = "sanitizeOutgoingHeaders Map.empty"
  let ?t5 = "[GuardEv example_url (Inr ()), MatchEv example_url True, FetchEv example_url,
              GuardEv next_url (Inr ()), MatchEv next_url True]"
  have step: "fetchLoop example_runtime example_network example_config example_allowlist ''GET'' ?hdrs
      0 example_url []
    = fetchLoop example_runtime example_network example_config example_allowlist ''GET'' ?hdrs
      (0 + 1) next_url ?t5"
    by (subst fetchLoop.simps) (simp add: f f' Let_def next_url_def [symmetric])
  obtain new where "snd (fetchLoop example_runtime example_network example_config example_allowlist
      ''GET'' ?hdrs (0 + 1) next_url ?t5) = ?t5 @ new"
    using fetchLoop_extends [of example_runtime example_network example_config example_allowlist
      "''GET''" ?hdrs "0 + 1" next_url ?t5] by blast
  with step show ?thesis by (simp add: fetchWithRedirectValidation_def)
qed

lemma loopback_not_matched:
  "hostname v = ''127.0.0.1'' \<Longrightarrow> allowlist_match example_allowlist v = None"
  by (simp add: allowlist_match_def example_allowlist_def
      normalizeHost_def stripDots_def trim_def trimStart_def trimEnd_def isSpace_def toLowerCase_def
      toLowerChar_def Let_def)

theorem fetchWithRedirectValidation_guards_every_fetch_witness:
  "redirectChain example_runtime example_network example_config example_allowlist ''GET''
      (sanitizeOutgoingHeaders Map.empty) 5 example_url (length ([] :: net_event list))
   \<and> fst (fetchWithRedirectValidation example_runtime example_network example_config
            example_allowlist Map.empty example_url ''GET'' []) = Inl ''too_many_redirects''
   \<and> snd (fetchWithRedirectValidation example_runtime example_network example_config
            example_allowlist Map.empty example_url ''GET'' [])
       = [GuardEv example_url (Inr ()), MatchEv example_url True] @ FetchEv example_url #
         drop 3 (snd (fetchWithRedirectValidation example_runtime example_network example_config
                        example_allowlist Map.empty example_url ''GET'' []))
   \<and> assertSafeUrl (rt_isIPv6 example_runtime) (net_lookup example_network 0) example_url
        (MIRROR_ENABLE_HTTP example_config) = Inr ()
   \<and> allowlist_match example_allowlist example_url \<noteq> None
   \<and> net_lookup loopback_network = net_lookup example_network
   \<and> net_fetch loopback_network 0 ''GET'' Map.empty loopback_url
        \<noteq> net_fetch example_network 0 ''GET'' Map.empty loopback_url
   \<and> fetchWithRedirectValidation example_runtime loopback_network example_config
        example_allowlist Map.empty example_url ''GET'' []
       = fetchWithRedirectValidation example_runtime example_network example_config
           example_allowlist Map.empty example_url ''GET'' []"
proof -
  let ?X = "fetchWithRedirectValidation example_runtime example_network example_config
              example_allowlist Map.empty example_url ''GET'' []"
  have u: "protocol example_url = ''https:''" "username example_url = []" "password example_url = []"
    "hostname example_url = ''example.com''"
    by (simp_all add: example_url_def)
  have chain: "redirectChain example_runtime example_network example_config example_allowlist ''GET''
      (sanitizeOutgoingHeaders Map.empty) 5 example_url (length ([] :: net_event list))"
    by (rule example_chain [OF u])
  note t = fetchWithRedirectValidation_guards_every_fetch
    [of example_runtime example_network example_config example_allowlist Map.empty example_url
        "''GET''" "[]"]
  from t chain have err: "fst ?X = Inl ''too_many_redirects''" by blast
  have "snd ?X = take 3 (snd ?X) @ drop 3 (snd ?X)" by simp
  then have split: "snd ?X = [GuardEv example_url (Inr ()), MatchEv example_url True] @
      FetchEv example_url # drop 3 (snd ?X)"
    by (simp add: example_first_events)
  from t have valid: "\<forall>pre v post. snd ?X = pre @ FetchEv v # post \<and> length ([] :: net_event list) \<le> length pre \<longrightarrow>
         (\<exists>before. pre = before @ [GuardEv v (Inr ()), MatchEv v True]
            \<and> length ([] :: net_event list) \<le> length before \<and>
            assertSafeUrl (rt_isIPv6 example_runtime) (net_lookup example_network (length before)) v
              (MIRROR_ENABLE_HTTP example_config) = Inr () \<and>
            allowlist_match example_allowlist v \<noteq> None)"
    by blast
  from valid split obtain before where
    b: "[GuardEv example_url (Inr ()), MatchEv example_url True]
          = before @ [GuardEv example_url (Inr ()), MatchEv example_url True]"
    and g: "assertSafeUrl (rt_isIPv6 example_runtime) (net_lookup example_network (length before))
              example_url (MIRROR_ENABLE_HTTP example_config) = Inr ()"
    and m: "allowlist_match example_allowlist example_url \<noteq> None"
    by (metis list.size(3) le0)
  from b have "before = []" by simp
  with g have g0: "assertSafeUrl (rt_isIPv6 example_runtime) (net_lookup example_network 0)
              example_url (MIRROR_ENABLE_HTTP example_config) = Inr ()" by simp
  have lk: "net_lookup loopback_network = net_lookup example_network"
    by (simp add: loopback_network_def)
  have differ: "net_fetch loopback_network 0 ''GET'' Map.empty loopback_url
        \<noteq> net_fetch example_network 0 ''GET'' Map.empty loopback_url"
    by (simp add: loopback_network_def loopback_url_def example_network_def example_response_def)
  have agree: "\<forall>pre v post. snd ?X = pre @ FetchEv v # post \<and> length ([] :: net_event list) \<le> length pre \<longrightarrow>
      net_fetch loopback_network (length pre) ''GET'' (sanitizeOutgoingHeaders Map.empty) v
        = net_fetch example_network (length pre) ''GET'' (sanitizeOutgoingHeaders Map.empty) v"
  proof (intro allI impI)
    fix pre v post
    assume "snd ?X = pre @ FetchEv v # post \<and> length ([] :: net_event list) \<le> length pre"
    with valid have "allowlist_match example_allowlist v \<noteq> None" by blast
    with loopback_not_matched [of v] have "hostname v \<noteq> ''127.0.0.1''" by blast
    then show "net_fetch loopback_network (length pre) ''GET'' (sanitizeOutgoingHeaders Map.empty) v
        = net_fetch example_network (length pre) ''GET'' (sanitizeOutgoingHeaders Map.empty) v"
      by (simp add: loopback_network_def)
  qed
  from t lk agree have same: "fetchWithRedirectValidation example_runtime loopback_network example_config
        example_allowlist Map.empty example_url ''GET'' [] = ?X"
    by blast
  from chain err split g0 m lk differ same show ?thesis by (intro conjI)
qed

section \<open>A second pass of the HTML rewriter\<close>

subsection \<open>One element: the attribute loop\<close>

lemma rewriteAttr_shape:
  "\<exists>g. \<forall>a attrs. rewriteAttr rt b t s a attrs
         = (case g a (map_of attrs a) of None \<Rightarrow> attrs | Some n \<Rightarrow> AList.update a n attrs)"
  apply (rule exI [where x = "\<lambda>a cur. case cur of None \<Rightarrow> None
            | Some c \<Rightarrow> if c = [] then None
                else if a = ''srcset'' then
                  (case rewriteSrcset rt (Some c) b t s of
                     Some n \<Rightarrow> if n \<noteq> [] then Some n else None | None \<Rightarrow> None)
                else
                  (case maybeRewriteUrl rt (Some c) b t s of
                     Some n \<Rightarrow> if n \<noteq> [] then Some n else None | None \<Rightarrow> None)"])
  apply (simp add: rewriteAttr_def split: option.splits)
  done

lemma step_map_of_other:
  assumes "\<And>a attrs. f a attrs
             = (case g a (map_of attrs a) of None \<Rightarrow> attrs | Some n \<Rightarrow> AList.update a n attrs)"
  shows "k \<noteq> a \<Longrightarrow> map_of (f a attrs) k = map_of attrs k"
  by (simp add: assms update_conv' split: option.splits)

lemma step_map_of_same:
  assumes "\<And>a attrs. f a attrs
             = (case g a (map_of attrs a) of None \<Rightarrow> attrs | Some n \<Rightarrow> AList.update a n attrs)"
  shows "map_of attrs a = map_of attrs' a \<Longrightarrow> map_of (f a attrs) a = map_of (f a attrs') a"
  by (simp add: assms update_conv' split: option.splits)

lemma step_fixed_transfer:
  assumes "\<And>a attrs. f a attrs
             = (case g a (map_of attrs a) of None \<Rightarrow> attrs | Some n \<Rightarrow> AList.update a n attrs)"
    and eq: "map_of attrs a = map_of attrs' a" and fixed: "f a attrs = attrs"
  shows "f a attrs' = attrs'"
proof (cases "g a (map_of attrs a)")
  case None
  then show ?thesis using eq by (simp add: assms(1))
next
  case (Some n)
  with fixed have "AList.update a n attrs = attrs" by (simp add: assms(1))
  then have "map_of (AList.update a n attrs) a = map_of attrs a" by simp
  then have "map_of attrs a = Some n" by (simp add: update_conv')
  with eq have "map_of attrs' a = Some n" by simp
  then have "AList.update a n attrs' = attrs'" by (rule update_triv)
  with Some eq show ?thesis by (simp add: assms(1))
qed

lemma fold_map_of_notin:
  assumes "\<And>a attrs. f a attrs
             = (case g a (map_of attrs a) of None \<Rightarrow> attrs | Some n \<Rightarrow> AList.update a n attrs)"
  shows "a \<notin> set as \<Longrightarrow> map_of (fold f as attrs) a = map_of attrs a"
proof (induction as arbitrary: attrs)
  case Nil
  then show ?case by simp
next
  case (Cons x xs)
  then have "map_of (fold f xs (f x attrs)) a = map_of (f x attrs) a" by simp
  also have "\<dots> = map_of attrs a" using Cons.prems step_map_of_other [OF assms, of a x attrs] by simp
  finally show ?case by simp
qed

lemma fold_map_of_in:
  assumes shape: "\<And>a attrs. f a attrs
             = (case g a (map_of attrs a) of None \<Rightarrow> attrs | Some n \<Rightarrow> AList.update a n attrs)"
  shows "distinct as \<Longrightarrow> a \<in> set as \<Longrightarrow> map_of (fold f as attrs) a = map_of (f a attrs) a"
proof (induction as arbitrary: attrs)
  case Nil
  then show ?case by simp
next
  case (Cons x xs)
  show ?case
  proof (cases "a = x")
    case True
    with Cons.prems have "a \<notin> set xs" by simp
    then have "map_of (fold f xs (f a attrs)) a = map_of (f a attrs) a"
      by (rule fold_map_of_notin [OF shape])
    with True show ?thesis by simp
  next
    case False
    with Cons.prems have "a \<in> set xs" "distinct xs" by simp_all
    then have "map_of (fold f xs (f x attrs)) a = map_of (f a (f x attrs)) a"
      using Cons.IH by simp
    also have "\<dots> = map_of (f a attrs) a"
      using step_map_of_other [OF shape, of a x attrs] False
      by (intro step_map_of_same [OF shape]) simp
    finally show ?thesis by simp
  qed
qed

lemma fold_fixed: "(\<forall>a\<in>set as. f a X = X) \<Longrightarrow> fold f as X = X"
  by (induction as) simp_all

lemma fold_idem:
  assumes shape: "\<And>a attrs. f a attrs
             = (case g a (map_of attrs a) of None \<Rightarrow> attrs | Some n \<Rightarrow> AList.update a n attrs)"
    and d: "distinct as" and idem: "\<forall>a\<in>set as. f a (f a attrs) = f a attrs"
  shows "fold f as (fold f as attrs) = fold f as attrs"
proof (rule fold_fixed, rule ballI)
  fix a assume a: "a \<in> set as"
  have "map_of (f a attrs) a = map_of (fold f as attrs) a"
    using fold_map_of_in [OF shape d a] by simp
  moreover have "f a (f a attrs) = f a attrs" using idem a by simp
  ultimately show "f a (fold f as attrs) = fold f as attrs"
    by (rule step_fixed_transfer [OF shape])
qed

lemma rewriteAttrs_idem:
  assumes "distinct as"
    and "\<forall>a\<in>set as. rewriteAttr rt b t s a (rewriteAttr rt b t s a attrs) = rewriteAttr rt b t s a attrs"
  shows "fold (rewriteAttr rt b t s) as (fold (rewriteAttr rt b t s) as attrs)
           = fold (rewriteAttr rt b t s) as attrs"
proof -
  from rewriteAttr_shape [of rt b t s] obtain g where
    "\<forall>a attrs. rewriteAttr rt b t s a attrs
         = (case g a (map_of attrs a) of None \<Rightarrow> attrs | Some n \<Rightarrow> AList.update a n attrs)" ..
  then have "\<And>a attrs. rewriteAttr rt b t s a attrs
         = (case g a (map_of attrs a) of None \<Rightarrow> attrs | Some n \<Rightarrow> AList.update a n attrs)"
    by simp
  then show ?thesis using assms by (rule fold_idem)
qed

lemma targets_eq:
  "targets t =
     (if t = ''a'' \<or> t = ''link'' then [''href'']
      else if t = ''script'' \<or> t = ''audio'' \<or> t = ''iframe'' then [''src'']
      else if t = ''img'' \<or> t = ''source'' then [''src'', ''srcset'']
      else if t = ''video'' then [''src'', ''poster'']
      else if t = ''form'' then [''action'']
      else [])"
  by (auto simp add: targets_def attrSelectors_def)

lemma targets_distinct: "distinct (targets t)"
  by (simp add: targets_eq)

lemma targets_meta: "targets ''meta'' = []"
  by (simp add: targets_eq)

subsection \<open>The tree: selectors, removal and insertion\<close>

lemma fold_rewriteSelector:
  "fold (rewriteSelector rt b t s) tbl doc
     = map (fold (\<lambda>e. eachElement (fst e) (fold (rewriteAttr rt b t s) (snd e))) tbl) doc"
  by (induction tbl arbitrary: doc) (simp_all add: rewriteSelector_def)

lemma fold_eachElement_Element:
  "fold (\<lambda>e. eachElement (fst e) (fold f (snd e))) tbl (Element t attrs cs)
     = Element t (fold f (concat (map snd (filter (\<lambda>e. fst e = t) tbl))) attrs)
         (map (fold (\<lambda>e. eachElement (fst e) (fold f (snd e))) tbl) cs)"
  by (induction tbl arbitrary: attrs cs) simp_all

lemma fold_eachElement_Text:
  "fold (\<lambda>e. eachElement (fst e) (fold f (snd e))) tbl (Text x) = Text x"
  by (induction tbl) simp_all

lemma rewriteNode_fixed:
  "(\<forall>e\<in>set (elementsBelow n). fold f (targets (fst e)) (snd e) = snd e) \<Longrightarrow>
   fold (\<lambda>e. eachElement (fst e) (fold f (snd e))) attrSelectors n = n"
proof (induction n)
  case (Element t attrs cs)
  have "map (fold (\<lambda>e. eachElement (fst e) (fold f (snd e))) attrSelectors) cs = cs"
  proof (rule map_idI)
    fix c assume c: "c \<in> set cs"
    with Element.prems have "\<forall>e\<in>set (elementsBelow c). fold f (targets (fst e)) (snd e) = snd e"
      by auto
    with c show "fold (\<lambda>e. eachElement (fst e) (fold f (snd e))) attrSelectors c = c"
      by (rule Element.IH)
  qed
  moreover from Element.prems have "fold f (targets t) attrs = attrs" by simp
  ultimately show ?case
    by (simp add: fold_eachElement_Element targets_def)
next
  case (Text x)
  show ?case by (rule fold_eachElement_Text)
qed

lemma rewriteNode_elements:
  "set (elementsBelow (fold (\<lambda>e. eachElement (fst e) (fold f (snd e))) attrSelectors n))
     = (\<lambda>e. (fst e, fold f (targets (fst e)) (snd e))) ` set (elementsBelow n)"
proof (induction n)
  case (Element t attrs cs)
  then show ?case
    by (simp add: fold_eachElement_Element targets_def image_UN)
next
  case (Text x)
  show ?case by (simp add: fold_eachElement_Text)
qed

lemma hasTag_removeBelow: "hasTag sel' (removeBelow sel n) = hasTag sel' n"
  by (cases n) simp_all

lemma removeBelow_tags:
  "\<not> hasTag sel n \<Longrightarrow> \<forall>e\<in>set (elementsBelow (removeBelow sel n)). fst e \<noteq> sel"
proof (induction n)
  case (Element t attrs cs)
  have "\<forall>e\<in>set (elementsBelow (removeBelow sel c)). fst e \<noteq> sel"
    if "c \<in> set cs" "\<not> hasTag sel (removeBelow sel c)" for c
    using that Element.IH [of c] by (simp add: hasTag_removeBelow)
  with Element.prems show ?case by auto
next
  case (Text x)
  show ?case by simp
qed

lemma removeElements_tags:
  "\<forall>e\<in>set (elementsOf (removeElements sel doc)). fst e \<noteq> sel"
proof
  fix e assume "e \<in> set (elementsOf (removeElements sel doc))"
  then obtain c where c: "c \<in> set doc" "\<not> hasTag sel (removeBelow sel c)"
    and e: "e \<in> set (elementsBelow (removeBelow sel c))"
    by (auto simp add: elementsOf_def removeElements_def)
  from c(2) have "\<not> hasTag sel c" by (simp add: hasTag_removeBelow)
  then have "\<forall>e\<in>set (elementsBelow (removeBelow sel c)). fst e \<noteq> sel"
    by (rule removeBelow_tags)
  with e show "fst e \<noteq> sel" by simp
qed

lemma hasTag_elements: "hasTag sel c \<Longrightarrow> \<exists>e\<in>set (elementsBelow c). fst e = sel"
  by (cases c) simp_all

lemma removeBelow_fixed:
  "\<forall>e\<in>set (elementsBelow n). fst e \<noteq> sel \<Longrightarrow> removeBelow sel n = n"
proof (induction n)
  case (Element t attrs cs)
  have a: "map (removeBelow sel) cs = cs"
  proof (rule map_idI)
    fix c assume c: "c \<in> set cs"
    with Element.prems have "\<forall>e\<in>set (elementsBelow c). fst e \<noteq> sel" by auto
    with c show "removeBelow sel c = c" by (rule Element.IH)
  qed
  have "\<not> hasTag sel c" if "c \<in> set cs" for c
    using that Element.prems hasTag_elements [of sel c] by auto
  then have "filter (\<lambda>c. \<not> hasTag sel c) cs = cs" by (simp add: filter_id_conv)
  with a show ?case by simp
next
  case (Text x)
  show ?case by simp
qed

lemma removeElements_fixed:
  assumes "\<forall>e\<in>set (elementsOf doc). fst e \<noteq> sel"
  shows "removeElements sel doc = doc"
proof -
  have a: "map (removeBelow sel) doc = doc"
  proof (rule map_idI)
    fix c assume c: "c \<in> set doc"
    with assms have "\<forall>e\<in>set (elementsBelow c). fst e \<noteq> sel" by (auto simp add: elementsOf_def)
    then show "removeBelow sel c = c" by (rule removeBelow_fixed)
  qed
  have "\<not> hasTag sel c" if "c \<in> set doc" for c
    using that assms hasTag_elements [of sel c] by (auto simp add: elementsOf_def)
  then have "filter (\<lambda>c. \<not> hasTag sel c) doc = doc" by (simp add: filter_id_conv)
  with a show ?thesis by (simp add: removeElements_def)
qed

lemma prependIn_elements:
  "set (elementsBelow (prependIn sel new n)) \<subseteq> set (elementsBelow n) \<union> set (elementsBelow new)"
  by (induction n) auto

lemma prependIn_fixed:
  "\<forall>h\<in>set (n # descendants n). \<not> hasTag sel h \<Longrightarrow> prependIn sel new n = n"
proof (induction n)
  case (Element t attrs cs)
  have "map (prependIn sel new) cs = cs"
  proof (rule map_idI)
    fix c assume c: "c \<in> set cs"
    with Element.prems have "\<forall>h\<in>set (c # descendants c). \<not> hasTag sel h" by auto
    with c show "prependIn sel new c = c" by (rule Element.IH)
  qed
  with Element.prems show ?case by simp
next
  case (Text x)
  show ?case by simp
qed

lemma prependIn_head:
  "\<exists>h\<in>set (n # descendants n). hasTag sel h \<Longrightarrow>
   \<exists>h\<in>set (prependIn sel new n # descendants (prependIn sel new n)).
      hasTag sel h \<and> new \<in> set (descendants h)"
proof (induction n)
  case (Element t attrs cs)
  show ?case
  proof (cases "t = sel")
    case True
    then show ?thesis by simp
  next
    case False
    with Element.prems obtain c where c: "c \<in> set cs"
      and "\<exists>h\<in>set (c # descendants c). hasTag sel h" by auto
    then have "\<exists>h\<in>set (prependIn sel new c # descendants (prependIn sel new c)).
      hasTag sel h \<and> new \<in> set (descendants h)" by (rule Element.IH)
    then obtain h where "h \<in> set (prependIn sel new c # descendants (prependIn sel new c))"
      and h: "hasTag sel h \<and> new \<in> set (descendants h)" by blast
    with c have "h \<in> set (descendants (prependIn sel new (Element t attrs cs)))"
      using False by auto
    with h show ?thesis by auto
  qed
next
  case (Text x)
  then show ?case by simp
qed

lemma headMetaRobots_empty:
  "(headMetaRobots d = []) =
     (\<forall>c\<in>set d. \<forall>h\<in>set (c # descendants c). hasTag ''head'' h \<longrightarrow>
        (\<forall>m\<in>set (descendants h). \<not> isRobotsMeta m))"
  by (auto simp add: headMetaRobots_def allNodes_def filter_empty_conv)

lemma isRobotsMeta_robotsMeta: "isRobotsMeta robotsMeta"
  by (simp add: robotsMeta_def)

lemma elementsOf_prepend:
  "set (elementsOf (map (prependIn sel new) d)) \<subseteq> set (elementsOf d) \<union> set (elementsBelow new)"
  using prependIn_elements by (fastforce simp add: elementsOf_def)

lemma elementsOf_rewriteNodes:
  "set (elementsOf (map (fold (\<lambda>e. eachElement (fst e) (fold f (snd e))) attrSelectors) d))
     = (\<lambda>e. (fst e, fold f (targets (fst e)) (snd e))) ` set (elementsOf d)"
  by (simp add: elementsOf_def rewriteNode_elements image_UN)

lemma rewriteNodes_fixed:
  assumes "\<forall>e\<in>set (elementsOf d). fold f (targets (fst e)) (snd e) = snd e"
  shows "map (fold (\<lambda>e. eachElement (fst e) (fold f (snd e))) attrSelectors) d = d"
proof (rule map_idI)
  fix c assume "c \<in> set d"
  with assms have "\<forall>e\<in>set (elementsBelow c). fold f (targets (fst e)) (snd e) = snd e"
    by (auto simp add: elementsOf_def)
  then show "fold (\<lambda>e. eachElement (fst e) (fold f (snd e))) attrSelectors c = c"
    by (rule rewriteNode_fixed)
qed

lemma fold_idem_conv:
  assumes shape: "\<And>a attrs. f a attrs
             = (case g a (map_of attrs a) of None \<Rightarrow> attrs | Some n \<Rightarrow> AList.update a n attrs)"
    and d: "distinct as" and fixed: "fold f as (fold f as attrs) = fold f as attrs"
  shows "\<forall>a\<in>set as. f a (f a attrs) = f a attrs"
proof
  fix a assume a: "a \<in> set as"
  let ?X = "fold f as attrs"
  have "map_of (fold f as ?X) a = map_of (f a ?X) a" by (rule fold_map_of_in [OF shape d a])
  with fixed have m: "map_of ?X a = map_of (f a ?X) a" by simp
  have fx: "f a ?X = ?X"
  proof (cases "g a (map_of ?X a)")
    case None
    then show ?thesis by (simp add: shape)
  next
    case (Some n)
    then have eq: "f a ?X = AList.update a n ?X" by (simp add: shape)
    with m have "map_of ?X a = Some n" by (simp add: update_conv')
    then have "AList.update a n ?X = ?X" by (rule update_triv)
    with eq show ?thesis by simp
  qed
  have "map_of ?X a = map_of (f a attrs) a" by (rule fold_map_of_in [OF shape d a])
  from this fx show "f a (f a attrs) = f a attrs" by (rule step_fixed_transfer [OF shape])
qed

lemma rewriteAttrs_idem_conv:
  assumes "distinct as"
    and "fold (rewriteAttr rt b t s) as (fold (rewriteAttr rt b t s) as attrs)
           = fold (rewriteAttr rt b t s) as attrs"
  shows "\<forall>a\<in>set as. rewriteAttr rt b t s a (rewriteAttr rt b t s a attrs) = rewriteAttr rt b t s a attrs"
proof -
  from rewriteAttr_shape [of rt b t s] obtain g where
    "\<forall>a attrs. rewriteAttr rt b t s a attrs
         = (case g a (map_of attrs a) of None \<Rightarrow> attrs | Some n \<Rightarrow> AList.update a n attrs)" ..
  then have "\<And>a attrs. rewriteAttr rt b t s a attrs
         = (case g a (map_of attrs a) of None \<Rightarrow> attrs | Some n \<Rightarrow> AList.update a n attrs)"
    by simp
  then show ?thesis using assms by (rule fold_idem_conv)
qed

lemma rewriteNode_fixed_conv:
  "fold (\<lambda>e. eachElement (fst e) (fold f (snd e))) attrSelectors n = n \<Longrightarrow>
   \<forall>e\<in>set (elementsBelow n). fold f (targets (fst e)) (snd e) = snd e"
proof (induction n)
  case (Element tg attrs cs)
  from Element.prems have a: "fold f (targets tg) attrs = attrs"
    and m: "map (fold (\<lambda>e. eachElement (fst e) (fold f (snd e))) attrSelectors) cs = cs"
    by (simp_all add: fold_eachElement_Element targets_def)
  have "\<forall>e\<in>set (elementsBelow c). fold f (targets (fst e)) (snd e) = snd e" if c: "c \<in> set cs" for c
  proof (rule Element.IH [OF c])
    from m have "map (fold (\<lambda>e. eachElement (fst e) (fold f (snd e))) attrSelectors) cs = map id cs"
      by simp
    with c show "fold (\<lambda>e. eachElement (fst e) (fold f (snd e))) attrSelectors c = c"
      by (simp only: map_eq_conv id_apply)
  qed
  with a show ?case by auto
next
  case (Text x)
  show ?case by simp
qed

lemma rewriteNodes_fixed_conv:
  assumes "map (fold (\<lambda>e. eachElement (fst e) (fold f (snd e))) attrSelectors) d = d"
  shows "\<forall>e\<in>set (elementsOf d). fold f (targets (fst e)) (snd e) = snd e"
proof -
  have "\<forall>e\<in>set (elementsBelow c). fold f (targets (fst e)) (snd e) = snd e" if c: "c \<in> set d" for c
  proof (rule rewriteNode_fixed_conv)
    from assms have "map (fold (\<lambda>e. eachElement (fst e) (fold f (snd e))) attrSelectors) d = map id d"
      by simp
    with c show "fold (\<lambda>e. eachElement (fst e) (fold f (snd e))) attrSelectors c = c"
      by (simp only: map_eq_conv id_apply)
  qed
  then show ?thesis by (auto simp add: elementsOf_def)
qed

lemma hasTag_rewriteNode:
  "hasTag sel (fold (\<lambda>e. eachElement (fst e) (fold f (snd e))) attrSelectors n) = hasTag sel n"
  by (cases n) (simp_all add: fold_eachElement_Element fold_eachElement_Text)

lemma isRobotsMeta_rewriteNode:
  "isRobotsMeta (fold (\<lambda>e. eachElement (fst e) (fold f (snd e))) attrSelectors n) = isRobotsMeta n"
  by (cases n) (auto simp add: fold_eachElement_Element fold_eachElement_Text targets_def [symmetric]
      targets_meta)

lemma descendants_rewriteNode:
  "descendants (fold (\<lambda>e. eachElement (fst e) (fold f (snd e))) attrSelectors n)
     = map (fold (\<lambda>e. eachElement (fst e) (fold f (snd e))) attrSelectors) (descendants n)"
proof (induction n)
  case (Element tg attrs cs)
  then show ?case
    by (simp add: fold_eachElement_Element map_concat comp_def cong: map_cong)
next
  case (Text x)
  show ?case by (simp add: fold_eachElement_Text)
qed

lemma headMetaRobots_rewriteNodes:
  "(headMetaRobots (map (fold (\<lambda>e. eachElement (fst e) (fold f (snd e))) attrSelectors) d) = [])
     = (headMetaRobots d = [])"
  by (simp add: headMetaRobots_empty descendants_rewriteNode hasTag_rewriteNode isRobotsMeta_rewriteNode)

lemma prependIn_keeps_elements:
  "set (elementsBelow n) \<subseteq> set (elementsBelow (prependIn sel new n))"
  by (induction n) auto

lemma elementsOf_prepend_keeps:
  "set (elementsOf d) \<subseteq> set (elementsOf (map (prependIn sel new) d))"
  using prependIn_keeps_elements by (fastforce simp add: elementsOf_def)

lemma prepend_robots_no_head:
  assumes "headMetaRobots (map (prependIn ''head'' robotsMeta) d) = []"
  shows "\<forall>c\<in>set d. \<forall>h\<in>set (c # descendants c). \<not> hasTag ''head'' h"
proof (intro ballI, rule ccontr)
  fix c h assume c: "c \<in> set d" and h: "h \<in> set (c # descendants c)" and "\<not> \<not> hasTag ''head'' h"
  then have "\<exists>h\<in>set (c # descendants c). hasTag ''head'' h" by blast
  then have "\<exists>h\<in>set (prependIn ''head'' robotsMeta c # descendants (prependIn ''head'' robotsMeta c)).
      hasTag ''head'' h \<and> robotsMeta \<in> set (descendants h)" by (rule prependIn_head)
  then obtain h' where
    h': "h' \<in> set (prependIn ''head'' robotsMeta c # descendants (prependIn ''head'' robotsMeta c))"
      "hasTag ''head'' h'" "robotsMeta \<in> set (descendants h')" by blast
  from c have "prependIn ''head'' robotsMeta c \<in> set (map (prependIn ''head'' robotsMeta) d)"
    by simp
  with assms h'(1,2) have "\<forall>m\<in>set (descendants h'). \<not> isRobotsMeta m"
    unfolding headMetaRobots_empty by blast
  with h'(3) isRobotsMeta_robotsMeta show False by blast
qed

lemma no_head_prepend_fixed:
  assumes "\<forall>c\<in>set d. \<forall>h\<in>set (c # descendants c). \<not> hasTag ''head'' h"
  shows "map (prependIn ''head'' new) d = d"
proof (rule map_idI)
  fix c assume "c \<in> set d"
  with assms have "\<forall>h\<in>set (c # descendants c). \<not> hasTag ''head'' h" by blast
  then show "prependIn ''head'' new c = c" by (rule prependIn_fixed)
qed

lemma no_head_rewriteNodes:
  assumes "\<forall>c\<in>set d. \<forall>h\<in>set (c # descendants c). \<not> hasTag ''head'' h"
  shows "\<forall>c\<in>set (map (fold (\<lambda>e. eachElement (fst e) (fold f (snd e))) attrSelectors) d).
           \<forall>h\<in>set (c # descendants c). \<not> hasTag ''head'' h"
  using assms by (auto simp add: descendants_rewriteNode hasTag_rewriteNode)

lemma rewriteTree_second_pass:
  "(rewriteTree rt (rewriteTree rt doc b t s) b t s = rewriteTree rt doc b t s)
     = (\<forall>e\<in>set (elementsOf (removeElements ''base'' doc)). \<forall>a\<in>set (targets (fst e)).
          rewriteAttr rt b t s a (rewriteAttr rt b t s a (snd e)) = rewriteAttr rt b t s a (snd e))"
proof -
  define f where "f = rewriteAttr rt b t s"
  define W where "W = fold (\<lambda>e. eachElement (fst e) (fold f (snd e))) attrSelectors"
  define D1 where "D1 = removeElements ''base'' doc"
  define D2 where "D2 = map W D1"
  define D3 where "D3 = rewriteTree rt doc b t s"
  have tree: "rewriteTree rt d b t s =
      (if headMetaRobots (map W (removeElements ''base'' d)) = []
       then map (prependIn ''head'' robotsMeta) (map W (removeElements ''base'' d))
       else map W (removeElements ''base'' d))" for d
    by (simp add: rewriteTree_def Let_def fold_rewriteSelector W_def f_def)
  have D3: "D3 = (if headMetaRobots D2 = [] then map (prependIn ''head'' robotsMeta) D2 else D2)"
    by (simp add: D3_def tree D2_def D1_def)
  have T1: "\<forall>e\<in>set (elementsOf D1). fst e \<noteq> ''base''"
    unfolding D1_def by (rule removeElements_tags)
  have E2: "set (elementsOf D2) = (\<lambda>e. (fst e, fold f (targets (fst e)) (snd e))) ` set (elementsOf D1)"
    unfolding D2_def W_def by (rule elementsOf_rewriteNodes)
  have E3: "set (elementsOf D3) \<subseteq> set (elementsOf D2) \<union> set (elementsBelow robotsMeta)"
    using elementsOf_prepend [of "''head''" robotsMeta D2] by (auto simp add: D3)
  have E3': "set (elementsOf D2) \<subseteq> set (elementsOf D3)"
    using elementsOf_prepend_keeps [of D2 "''head''" robotsMeta] by (auto simp add: D3)
  have meta: "set (elementsBelow robotsMeta) = {(''meta'', [(''name'', ''robots''), (''content'', ''noindex,nofollow'')])}"
    by (simp add: robotsMeta_def)
  have a: "removeElements ''base'' D3 = D3"
  proof (rule removeElements_fixed, rule ballI)
    fix e assume "e \<in> set (elementsOf D3)"
    with E3 meta consider "e = (''meta'', [(''name'', ''robots''), (''content'', ''noindex,nofollow'')])"
      | "e \<in> set (elementsOf D2)" by auto
    then show "fst e \<noteq> ''base''"
    proof cases
      case 1
      then show ?thesis by simp
    next
      case 2
      with E2 obtain e0 where "e0 \<in> set (elementsOf D1)" "fst e = fst e0" by auto
      with T1 show ?thesis by simp
    qed
  qed
  have r: "(if headMetaRobots (map W D3) = [] then map (prependIn ''head'' robotsMeta) (map W D3)
            else map W D3) = map W D3"
  proof (cases "headMetaRobots (map W D3) = []")
    case True
    then have h3: "headMetaRobots D3 = []"
      unfolding W_def by (simp only: headMetaRobots_rewriteNodes)
    have "\<forall>c\<in>set D3. \<forall>h\<in>set (c # descendants c). \<not> hasTag ''head'' h"
    proof (cases "headMetaRobots D2 = []")
      case e: True
      with D3 have eq: "D3 = map (prependIn ''head'' robotsMeta) D2" by simp
      with h3 have nh: "\<forall>c\<in>set D2. \<forall>h\<in>set (c # descendants c). \<not> hasTag ''head'' h"
        by (intro prepend_robots_no_head) simp
      then have "map (prependIn ''head'' robotsMeta) D2 = D2" by (rule no_head_prepend_fixed)
      with eq have "D3 = D2" by simp
      with nh show ?thesis by simp
    next
      case False
      with D3 h3 show ?thesis by simp
    qed
    then have "\<forall>c\<in>set (map W D3). \<forall>h\<in>set (c # descendants c). \<not> hasTag ''head'' h"
      unfolding W_def by (rule no_head_rewriteNodes)
    then have "map (prependIn ''head'' robotsMeta) (map W D3) = map W D3"
      by (rule no_head_prepend_fixed)
    then show ?thesis by simp
  next
    case False
    then show ?thesis by simp
  qed
  have second: "rewriteTree rt D3 b t s = map W D3"
    by (simp only: tree [of D3] a r)
  have "(map W D3 = D3)
     = (\<forall>e\<in>set (elementsOf D1). \<forall>a\<in>set (targets (fst e)). f a (f a (snd e)) = f a (snd e))"
  proof
    assume "map W D3 = D3"
    then have fixed: "\<forall>e\<in>set (elementsOf D3). fold f (targets (fst e)) (snd e) = snd e"
      unfolding W_def by (rule rewriteNodes_fixed_conv)
    show "\<forall>e\<in>set (elementsOf D1). \<forall>a\<in>set (targets (fst e)). f a (f a (snd e)) = f a (snd e)"
    proof
      fix e0 assume "e0 \<in> set (elementsOf D1)"
      with E2 E3' have "(fst e0, fold f (targets (fst e0)) (snd e0)) \<in> set (elementsOf D3)" by auto
      with fixed have "fold f (targets (fst e0)) (fold f (targets (fst e0)) (snd e0))
          = fold f (targets (fst e0)) (snd e0)" by fastforce
      with targets_distinct [of "fst e0"]
      show "\<forall>a\<in>set (targets (fst e0)). f a (f a (snd e0)) = f a (snd e0)"
        unfolding f_def by (rule rewriteAttrs_idem_conv)
    qed
  next
    assume stable: "\<forall>e\<in>set (elementsOf D1). \<forall>a\<in>set (targets (fst e)). f a (f a (snd e)) = f a (snd e)"
    show "map W D3 = D3"
      unfolding W_def
    proof (rule rewriteNodes_fixed, rule ballI)
      fix e assume "e \<in> set (elementsOf D3)"
      with E3 meta consider "e = (''meta'', [(''name'', ''robots''), (''content'', ''noindex,nofollow'')])"
        | "e \<in> set (elementsOf D2)" by auto
      then show "fold f (targets (fst e)) (snd e) = snd e"
      proof cases
        case 1
        then show ?thesis by (simp add: targets_meta)
      next
        case 2
        with E2 obtain e0 where e0: "e0 \<in> set (elementsOf D1)"
          and e: "e = (fst e0, fold f (targets (fst e0)) (snd e0))" by auto
        from e0 stable have "\<forall>a\<in>set (targets (fst e0)).
          rewriteAttr rt b t s a (rewriteAttr rt b t s a (snd e0)) = rewriteAttr rt b t s a (snd e0)"
          by (simp add: f_def)
        with targets_distinct [of "fst e0"]
        have "fold (rewriteAttr rt b t s) (targets (fst e0))
                (fold (rewriteAttr rt b t s) (targets (fst e0)) (snd e0))
              = fold (rewriteAttr rt b t s) (targets (fst e0)) (snd e0)"
          by (rule rewriteAttrs_idem)
        with e show ?thesis by (simp add: f_def)
      qed
    qed
  qed
  with second show ?thesis by (simp add: D3_def D1_def f_def)
qed

subsection \<open>One attribute: values kept and values rewritten again\<close>

lemma whiteSpace_bytes: "w \<in> set whiteSpace \<Longrightarrow> w \<noteq> [] \<and> CHR ''/'' \<notin> set w"
  by (auto simp add: whiteSpace_def)

lemma leadingSpace_slash: "leadingSpace (CHR ''/'' # xs) = 0"
  by (simp add: leadingSpace_def whiteSpace_def startsWith_def)

lemma trailingSpace_cases:
  "trailingSpace s = 0 \<or> (\<exists>w\<in>set whiteSpace. endsWith s w \<and> trailingSpace s = length w)"
  by (auto simp add: trailingSpace_def find_Some_iff split: option.splits)

lemma trimEndWs_slash: "\<exists>ys. trimEndWs (CHR ''/'' # xs) = CHR ''/'' # ys"
proof (induction "length xs" arbitrary: xs rule: less_induct)
  case less
  let ?s = "CHR ''/'' # xs"
  from trailingSpace_cases [of ?s] show ?case
  proof
    assume "trailingSpace ?s = 0"
    then have "trimEndWs ?s = ?s" by (subst trimEndWs.simps) simp
    then show ?thesis by blast
  next
    assume "\<exists>w\<in>set whiteSpace. endsWith ?s w \<and> trailingSpace ?s = length w"
    then obtain w where w: "w \<in> set whiteSpace" and e: "endsWith ?s w"
      and l: "trailingSpace ?s = length w" by blast
    from whiteSpace_bytes [OF w] have ne: "w \<noteq> []" and ns: "CHR ''/'' \<notin> set w" by simp_all
    from e have le: "length w \<le> length ?s" and d: "drop (length ?s - length w) ?s = w"
      by (simp_all add: endsWith_def)
    have "length w \<noteq> length ?s"
    proof
      assume "length w = length ?s"
      with d have "?s = w" by simp
      with ns show False by auto
    qed
    with le have lw: "length w \<le> length xs" by simp
    then have tk: "take (length ?s - length w) ?s = CHR ''/'' # take (length xs - length w) xs"
      by (simp add: Suc_diff_le)
    from ne lw have "length (take (length xs - length w) xs) < length xs"
      by (cases w) simp_all
    from less [OF this] obtain ys where
      "trimEndWs (CHR ''/'' # take (length xs - length w) xs) = CHR ''/'' # ys" by blast
    moreover from l ne have "trimEndWs ?s = trimEndWs (take (length ?s - length w) ?s)"
      by (subst trimEndWs.simps) simp
    ultimately show ?thesis using tk by simp
  qed
qed

lemma trimWs_slash: "\<exists>ys. trimWs (CHR ''/'' # xs) = CHR ''/'' # ys"
  using trimEndWs_slash [of xs] by (simp add: trimWs_def leadingSpace_slash)

lemma trimWs_Nil: "trimWs [] = []"
  by (simp add: trimWs_def trimEndWs.simps)

lemma buildMirrorPath_slash: "\<exists>xs. buildMirrorPath s r = CHR ''/'' # xs"
  by (simp add: buildMirrorPath_def)

lemma buildMirrorPath_longer:
  assumes "pathname r2 @ search r2 = p"
  shows "length (buildMirrorPath s r2) > length p"
proof -
  from assms have "length p = length (pathname r2) + length (search r2)" by auto
  then show ?thesis by (auto simp add: buildMirrorPath_def)
qed

lemma maybeRewriteUrl_kept:
  assumes "startsWith (trimWs v) ''#'' \<or> startsWith (trimWs v) ''data:'' \<or>
           startsWith (trimWs v) ''mailto:'' \<or> startsWith (trimWs v) ''tel:'' \<or>
           startsWith (trimWs v) ''javascript:'' \<or>
           rt_resolveUrl rt (trimWs v) b = None \<or>
           (\<exists>r. rt_resolveUrl rt (trimWs v) b = Some r \<and> url_origin rt r \<noteq> url_origin rt t)"
  shows "maybeRewriteUrl rt (Some v) b t s = Some v"
  using assms by (auto simp add: maybeRewriteUrl_def Let_def split: option.splits)

lemma rewriteAttr_kept:
  assumes a: "a \<noteq> ''srcset''" and v: "map_of attrs a = Some v"
    and k: "startsWith (trimWs v) ''#'' \<or> startsWith (trimWs v) ''data:'' \<or>
           startsWith (trimWs v) ''mailto:'' \<or> startsWith (trimWs v) ''tel:'' \<or>
           startsWith (trimWs v) ''javascript:'' \<or>
           rt_resolveUrl rt (trimWs v) b = None \<or>
           (\<exists>r. rt_resolveUrl rt (trimWs v) b = Some r \<and> url_origin rt r \<noteq> url_origin rt t)"
  shows "rewriteAttr rt b t s a attrs = attrs"
proof -
  from k have "maybeRewriteUrl rt (Some v) b t s = Some v" by (rule maybeRewriteUrl_kept)
  moreover from v have "AList.update a v attrs = attrs" by (rule update_triv)
  ultimately show ?thesis using a v by (simp add: rewriteAttr_def)
qed

lemma maybeRewriteUrl_same_origin:
  assumes "trimWs v \<noteq> []"
    and "\<not> (startsWith (trimWs v) ''#'' \<or> startsWith (trimWs v) ''data:'' \<or>
           startsWith (trimWs v) ''mailto:'' \<or> startsWith (trimWs v) ''tel:'' \<or>
           startsWith (trimWs v) ''javascript:'')"
    and "rt_resolveUrl rt (trimWs v) b = Some r" and "url_origin rt r = url_origin rt t"
  shows "maybeRewriteUrl rt (Some v) b t s = Some (buildMirrorPath s r)"
proof -
  from assms(1) have "v \<noteq> []" using trimWs_Nil by auto
  with assms show ?thesis by (simp add: maybeRewriteUrl_def Let_def)
qed

lemma rewriteAttr_again:
  assumes a: "a \<noteq> ''srcset''" and v: "map_of attrs a = Some v"
    and ne: "trimWs v \<noteq> []"
    and ns: "\<not> (startsWith (trimWs v) ''#'' \<or> startsWith (trimWs v) ''data:'' \<or>
           startsWith (trimWs v) ''mailto:'' \<or> startsWith (trimWs v) ''tel:'' \<or>
           startsWith (trimWs v) ''javascript:'')"
    and r: "rt_resolveUrl rt (trimWs v) b = Some r" and o: "url_origin rt r = url_origin rt t"
    and r2: "rt_resolveUrl rt (trimWs (buildMirrorPath s r)) b = Some r2"
    and o2: "url_origin rt r2 = url_origin rt t"
    and p2: "pathname r2 @ search r2 = buildMirrorPath s r"
  shows "rewriteAttr rt b t s a attrs = AList.update a (buildMirrorPath s r) attrs
         \<and> rewriteAttr rt b t s a (rewriteAttr rt b t s a attrs)
             = AList.update a (buildMirrorPath s r2) attrs
         \<and> rewriteAttr rt b t s a (rewriteAttr rt b t s a attrs) \<noteq> rewriteAttr rt b t s a attrs"
proof -
  let ?p = "buildMirrorPath s r"
  from ne have vne: "v \<noteq> []" using trimWs_Nil by auto
  obtain xs where xs: "?p = CHR ''/'' # xs" using buildMirrorPath_slash by blast
  obtain ys where ys: "trimWs ?p = CHR ''/'' # ys" using trimWs_slash [of xs] xs by auto
  have first: "maybeRewriteUrl rt (Some v) b t s = Some ?p"
    using ne ns r o by (rule maybeRewriteUrl_same_origin)
  have one: "rewriteAttr rt b t s a attrs = AList.update a ?p attrs"
    using a v vne first xs by (simp add: rewriteAttr_def)
  have "maybeRewriteUrl rt (Some ?p) b t s = Some (buildMirrorPath s r2)"
  proof (rule maybeRewriteUrl_same_origin)
    show "trimWs ?p \<noteq> []" using ys by simp
    show "\<not> (startsWith (trimWs ?p) ''#'' \<or> startsWith (trimWs ?p) ''data:'' \<or>
           startsWith (trimWs ?p) ''mailto:'' \<or> startsWith (trimWs ?p) ''tel:'' \<or>
           startsWith (trimWs ?p) ''javascript:'')"
      using ys by (simp add: startsWith_def)
    show "rt_resolveUrl rt (trimWs ?p) b = Some r2" by (rule r2)
    show "url_origin rt r2 = url_origin rt t" by (rule o2)
  qed
  moreover have m: "map_of (AList.update a ?p attrs) a = Some ?p" by (simp add: update_conv')
  moreover obtain zs where "buildMirrorPath s r2 = CHR ''/'' # zs" using buildMirrorPath_slash by blast
  ultimately have two: "rewriteAttr rt b t s a (AList.update a ?p attrs)
      = AList.update a (buildMirrorPath s r2) (AList.update a ?p attrs)"
    using a xs by (simp add: rewriteAttr_def)
  have "buildMirrorPath s r2 \<noteq> ?p"
    using buildMirrorPath_longer [OF p2, of s] by auto
  then have "map_of (AList.update a (buildMirrorPath s r2) (AList.update a ?p attrs)) a
      \<noteq> map_of (AList.update a ?p attrs) a" by (simp add: update_conv')
  then have "AList.update a (buildMirrorPath s r2) (AList.update a ?p attrs) \<noteq> AList.update a ?p attrs"
    by auto
  with one two show ?thesis by simp
qed

text \<open>
  Claim C3, as the code has it. Provided the outputs of both passes parse back into the
  trees they were serialised from, a second pass returns the output of the first pass
  unchanged exactly when, on every element left after the removal of the \<^verbatim>\<open>base\<close> elements
  and for every attribute the table names for its tag, rewriting the attribute twice gives
  what rewriting it once gives. An attribute other than \<^verbatim>\<open>srcset\<close> is left as it is, and so
  meets that condition, when its trimmed value starts with \<^verbatim>\<open>#\<close>, \<^verbatim>\<open>data:\<close>, \<^verbatim>\<open>mailto:\<close>,
  \<^verbatim>\<open>tel:\<close> or \<^verbatim>\<open>javascript:\<close>, does not resolve against \<^verbatim>\<open>baseUrl\<close>, or resolves to a URL of
  another origin. It does not meet the condition when its value resolves to a URL of the
  target's origin and the mirrored path written for it resolves, in turn, to a URL of the
  target's origin with that path and query: the rewriter has no test for a path that is
  mirrored already, so the second pass writes the mirrored path of the mirrored path, as
  in the example after the theorem, where \<^verbatim>\<open>/x\<close> becomes \<^verbatim>\<open>/m/example-com/x\<close> and then
  \<^verbatim>\<open>/m/example-com/m/example-com/x\<close>.
\<close>

theorem rewriteHtmlDocument_second_pass:
  "(ch_load ch (rewriteHtmlDocument ch rt html b t s) = rewriteTree rt (ch_load ch html) b t s
      \<and> ch_load ch (rewriteHtmlDocument ch rt (rewriteHtmlDocument ch rt html b t s) b t s)
          = rewriteTree rt (ch_load ch (rewriteHtmlDocument ch rt html b t s)) b t s \<longrightarrow>
    ((rewriteHtmlDocument ch rt (rewriteHtmlDocument ch rt html b t s) b t s
        = rewriteHtmlDocument ch rt html b t s)
     = (\<forall>e\<in>set (elementsOf (removeElements ''base'' (ch_load ch html))). \<forall>a\<in>set (targets (fst e)).
          rewriteAttr rt b t s a (rewriteAttr rt b t s a (snd e)) = rewriteAttr rt b t s a (snd e))))
   \<and> (a \<noteq> ''srcset'' \<and> map_of attrs a = Some v \<and>
        (startsWith (trimWs v) ''#'' \<or> startsWith (trimWs v) ''data:'' \<or>
         startsWith (trimWs v) ''mailto:'' \<or> startsWith (trimWs v) ''tel:'' \<or>
         startsWith (trimWs v) ''javascript:'' \<or>
         rt_resolveUrl rt (trimWs v) b = None \<or>
         (\<exists>r. rt_resolveUrl rt (trimWs v) b = Some r \<and> url_origin rt r \<noteq> url_origin rt t)) \<longrightarrow>
       rewriteAttr rt b t s a attrs = attrs)
   \<and> (a \<noteq> ''srcset'' \<and> map_of attrs a = Some v \<and> trimWs v \<noteq> [] \<and>
        \<not> (startsWith (trimWs v) ''#'' \<or> startsWith (trimWs v) ''data:'' \<or>
           startsWith (trimWs v) ''mailto:'' \<or> startsWith (trimWs v) ''tel:'' \<or>
           startsWith (trimWs v) ''javascript:'') \<and>
        rt_resolveUrl rt (trimWs v) b = Some r \<and> url_origin rt r = url_origin rt t \<and>
        rt_resolveUrl rt (trimWs (buildMirrorPath s r)) b = Some r2 \<and>
        url_origin rt r2 = url_origin rt t \<and>
        pathname r2 @ search r2 = buildMirrorPath s r \<longrightarrow>
       rewriteAttr rt b t s a attrs = AList.update a (buildMirrorPath s r) attrs
       \<and> rewriteAttr rt b t s a (rewriteAttr rt b t s a attrs)
           = AList.update a (buildMirrorPath s r2) attrs
       \<and> rewriteAttr rt b t s a (rewriteAttr rt b t s a attrs) \<noteq> rewriteAttr rt b t s a attrs)"
proof (intro conjI impI)
  assume h: "ch_load ch (rewriteHtmlDocument ch rt html b t s) = rewriteTree rt (ch_load ch html) b t s
      \<and> ch_load ch (rewriteHtmlDocument ch rt (rewriteHtmlDocument ch rt html b t s) b t s)
          = rewriteTree rt (ch_load ch (rewriteHtmlDocument ch rt html b t s)) b t s"
  let ?D = "rewriteTree rt (ch_load ch html) b t s"
  let ?X1 = "rewriteHtmlDocument ch rt html b t s"
  let ?X2 = "rewriteHtmlDocument ch rt ?X1 b t s"
  from h have l1: "ch_load ch ?X1 = ?D" by simp
  with h have l2: "ch_load ch ?X2 = rewriteTree rt ?D b t s" by simp
  have x1: "?X1 = ch_html ch ?D" by (simp add: rewriteHtmlDocument_def)
  have x2: "?X2 = ch_html ch (rewriteTree rt ?D b t s)"
    using l1 by (simp add: rewriteHtmlDocument_def)
  have "(?X2 = ?X1) = (rewriteTree rt ?D b t s = ?D)"
  proof
    assume "?X2 = ?X1"
    then have "ch_load ch ?X2 = ch_load ch ?X1" by simp
    with l1 l2 show "rewriteTree rt ?D b t s = ?D" by simp
  next
    assume "rewriteTree rt ?D b t s = ?D"
    with x1 x2 show "?X2 = ?X1" by simp
  qed
  then show "(?X2 = ?X1)
     = (\<forall>e\<in>set (elementsOf (removeElements ''base'' (ch_load ch html))). \<forall>a\<in>set (targets (fst e)).
          rewriteAttr rt b t s a (rewriteAttr rt b t s a (snd e)) = rewriteAttr rt b t s a (snd e))"
    by (simp only: rewriteTree_second_pass)
next
  assume "a \<noteq> ''srcset'' \<and> map_of attrs a = Some v \<and>
        (startsWith (trimWs v) ''#'' \<or> startsWith (trimWs v) ''data:'' \<or>
         startsWith (trimWs v) ''mailto:'' \<or> startsWith (trimWs v) ''tel:'' \<or>
         startsWith (trimWs v) ''javascript:'' \<or>
         rt_resolveUrl rt (trimWs v) b = None \<or>
         (\<exists>r. rt_resolveUrl rt (trimWs v) b = Some r \<and> url_origin rt r \<noteq> url_origin rt t))"
  then show "rewriteAttr rt b t s a attrs = attrs"
    by (intro rewriteAttr_kept [where v = v]) simp_all
next
  assume h: "a \<noteq> ''srcset'' \<and> map_of attrs a = Some v \<and> trimWs v \<noteq> [] \<and>
        \<not> (startsWith (trimWs v) ''#'' \<or> startsWith (trimWs v) ''data:'' \<or>
           startsWith (trimWs v) ''mailto:'' \<or> startsWith (trimWs v) ''tel:'' \<or>
           startsWith (trimWs v) ''javascript:'') \<and>
        rt_resolveUrl rt (trimWs v) b = Some r \<and> url_origin rt r = url_origin rt t \<and>
        rt_resolveUrl rt (trimWs (buildMirrorPath s r)) b = Some r2 \<and>
        url_origin rt r2 = url_origin rt t \<and>
        pathname r2 @ search r2 = buildMirrorPath s r"
  then have "rewriteAttr rt b t s a attrs = AList.update a (buildMirrorPath s r) attrs
       \<and> rewriteAttr rt b t s a (rewriteAttr rt b t s a attrs)
           = AList.update a (buildMirrorPath s r2) attrs
       \<and> rewriteAttr rt b t s a (rewriteAttr rt b t s a attrs) \<noteq> rewriteAttr rt b t s a attrs"
    by (intro rewriteAttr_again [where v = v]) simp_all
  then show "rewriteAttr rt b t s a attrs = AList.update a (buildMirrorPath s r) attrs"
    and "rewriteAttr rt b t s a (rewriteAttr rt b t s a attrs)
           = AList.update a (buildMirrorPath s r2) attrs"
    and "rewriteAttr rt b t s a (rewriteAttr rt b t s a attrs) \<noteq> rewriteAttr rt b t s a attrs"
    by blast+
qed

subsection \<open>Two passes over the example pages\<close>

lemma rewriteSelectors_Nil: "fold (rewriteSelector rt b t s) tbl [] = []"
  by (simp add: fold_rewriteSelector)

lemma rewriteSelectors_Element:
  "fold (rewriteSelector rt b t s) attrSelectors (Element tg attrs cs # rest)
     = Element tg (fold (rewriteAttr rt b t s) (targets tg) attrs)
         (fold (rewriteSelector rt b t s) attrSelectors cs)
       # fold (rewriteSelector rt b t s) attrSelectors rest"
  by (simp add: fold_rewriteSelector fold_eachElement_Element targets_def)

lemma rewriteSelectors_Text:
  "fold (rewriteSelector rt b t s) attrSelectors (Text x # rest)
     = Text x # fold (rewriteSelector rt b t s) attrSelectors rest"
  by (simp add: fold_rewriteSelector fold_eachElement_Text)

lemma example_origins:
  "url_origin example_runtime example_url = url_origin example_runtime example_target"
  "url_origin example_runtime (example_url\<lparr>pathname := p, search := q\<rparr>)
     = url_origin example_runtime example_target"
  by (simp_all add: url_origin_def url_host_def example_target_def example_url_def)

text \<open>
  The origin of a \<^verbatim>\<open>blob:\<close> URL is that of the URL its path spells, and a \<^verbatim>\<open>file:\<close> URL has
  the origin \<^verbatim>\<open>null\<close>.
\<close>

lemma example_opaque_origins:
  "url_origin example_runtime
     \<lparr>protocol = ''blob:'', username = [], password = [], hostname = [], port = [],
      pathname = ''https://example.com/foo'', search = []\<rparr>
   = url_origin example_runtime example_target"
  "url_origin example_runtime
     \<lparr>protocol = ''file:'', username = [], password = [], hostname = [], port = [],
      pathname = ''/etc/hosts'', search = []\<rparr>
   = ''null''"
  by (simp_all add: url_origin_def url_host_def example_runtime_def example_url_def
      example_target_def)

lemma example_trims:
  "trimWs ''/x'' = ''/x''" "trimWs ''/m/example-com/x'' = ''/m/example-com/x''"
  "trimWs ''#top'' = ''#top''" "trimWs (CHR 0xC2 # CHR 0xA0 # ''#end'') = ''#end''"
  "trimWs ''mailto:a@example.com'' = ''mailto:a@example.com''"
  "trimWs ''data:image/png;base64,AAAA'' = ''data:image/png;base64,AAAA''"
  "trimWs ''#a'' = ''#a''" "trimWs ''#b'' = ''#b''"
  "trimWs ''#a 1x'' = ''#a 1x''" "trimWs ''#b 2x'' = ''#b 2x''" "trimWs '' #b 2x'' = ''#b 2x''"
  by (simp_all add: trimWs_def leadingSpace_def trailingSpace_def whiteSpace_def startsWith_def
      endsWith_def trimEndWs.simps)

lemma example_words:
  "urlPartOf ''#a 1x'' = ''#a''" "descriptorOf ''#a 1x'' = Some ''1x''"
  "urlPartOf ''#b 2x'' = ''#b''" "descriptorOf ''#b 2x'' = Some ''2x''"
  by (simp_all add: urlPartOf_def descriptorOf_def leadingSpace_def whiteSpace_def startsWith_def)

lemma example_slug: "encodeURIComponent ''example-com'' = ''example-com''"
  by (simp add: encodeURIComponent_def encodeChar_def unreservedChars_def)

lemma example_resolve:
  "rt_resolveUrl example_runtime ''/x'' example_url = Some (example_url\<lparr>pathname := ''/x'', search := []\<rparr>)"
  "rt_resolveUrl example_runtime ''/m/example-com/x'' example_url
     = Some (example_url\<lparr>pathname := ''/m/example-com/x'', search := []\<rparr>)"
  by (simp_all add: example_runtime_def startsWith_def)

lemma example_paths_built:
  "buildMirrorPath ''example-com'' (example_url\<lparr>pathname := ''/x'', search := []\<rparr>)
     = ''/m/example-com/x''"
  "buildMirrorPath ''example-com'' (example_url\<lparr>pathname := ''/m/example-com/x'', search := []\<rparr>)
     = ''/m/example-com/m/example-com/x''"
  by (simp_all add: buildMirrorPath_def example_slug)

lemma example_rewrites:
  "maybeRewriteUrl example_runtime (Some ''/x'') example_url example_target ''example-com''
     = Some ''/m/example-com/x''"
  "maybeRewriteUrl example_runtime (Some ''/m/example-com/x'') example_url example_target ''example-com''
     = Some ''/m/example-com/m/example-com/x''"
  by (simp_all add: maybeRewriteUrl_def example_trims example_resolve startsWith_def
      example_origins example_paths_built)

lemma example_skips:
  "maybeRewriteUrl rt (Some ''#top'') b t s = Some ''#top''"
  "maybeRewriteUrl rt (Some (CHR 0xC2 # CHR 0xA0 # ''#end'')) b t s = Some (CHR 0xC2 # CHR 0xA0 # ''#end'')"
  "maybeRewriteUrl rt (Some ''mailto:a@example.com'') b t s = Some ''mailto:a@example.com''"
  "maybeRewriteUrl rt (Some ''data:image/png;base64,AAAA'') b t s = Some ''data:image/png;base64,AAAA''"
  "maybeRewriteUrl rt (Some ''#a'') b t s = Some ''#a''"
  "maybeRewriteUrl rt (Some ''#b'') b t s = Some ''#b''"
  by (simp_all add: maybeRewriteUrl_def example_trims startsWith_def)

lemma example_srcset:
  "rewriteSrcset rt (Some ''#a 1x,#b 2x'') b t s = Some ''#a 1x, #b 2x''"
  "rewriteSrcset rt (Some ''#a 1x, #b 2x'') b t s = Some ''#a 1x, #b 2x''"
  by (simp_all add: rewriteSrcset_def example_trims example_words example_skips)

lemma example_attrs:
  "rewriteAttr example_runtime example_url example_target ''example-com'' ''href'' [(''href'', ''/x'')]
     = [(''href'', ''/m/example-com/x'')]"
  "rewriteAttr example_runtime example_url example_target ''example-com'' ''href''
       [(''href'', ''/m/example-com/x'')]
     = [(''href'', ''/m/example-com/m/example-com/x'')]"
  by (simp_all add: rewriteAttr_def example_rewrites)

lemma stable_attrs:
  "rewriteAttr rt b t s ''href'' [(''href'', ''#top'')] = [(''href'', ''#top'')]"
  "rewriteAttr rt b t s ''href'' [(''href'', CHR 0xC2 # CHR 0xA0 # ''#end'')]
     = [(''href'', CHR 0xC2 # CHR 0xA0 # ''#end'')]"
  "rewriteAttr rt b t s ''href'' [(''href'', ''mailto:a@example.com'')]
     = [(''href'', ''mailto:a@example.com'')]"
  "rewriteAttr rt b t s ''src'' [(''src'', ''data:image/png;base64,AAAA''), (''srcset'', v)]
     = [(''src'', ''data:image/png;base64,AAAA''), (''srcset'', v)]"
  "rewriteAttr rt b t s ''srcset'' [(''src'', ''data:image/png;base64,AAAA''), (''srcset'', ''#a 1x,#b 2x'')]
     = [(''src'', ''data:image/png;base64,AAAA''), (''srcset'', ''#a 1x, #b 2x'')]"
  "rewriteAttr rt b t s ''srcset'' [(''src'', ''data:image/png;base64,AAAA''), (''srcset'', ''#a 1x, #b 2x'')]
     = [(''src'', ''data:image/png;base64,AAAA''), (''srcset'', ''#a 1x, #b 2x'')]"
  by (simp_all add: rewriteAttr_def example_skips example_srcset)

lemma example_pass1:
  "rewriteTree example_runtime example_tree example_url example_target ''example-com'' = example_tree1"
  by (simp add: rewriteTree_def removeElements_def example_tree_def example_tree1_def
      rewriteSelectors_Nil rewriteSelectors_Element rewriteSelectors_Text targets_eq example_attrs
      headMetaRobots_def allNodes_def)

lemma example_pass2:
  "rewriteTree example_runtime example_tree1 example_url example_target ''example-com'' = example_tree2"
  by (simp add: rewriteTree_def removeElements_def example_tree1_def example_tree2_def
      rewriteSelectors_Nil rewriteSelectors_Element rewriteSelectors_Text targets_eq example_attrs
      headMetaRobots_def allNodes_def robotsMeta_def)

lemma stable_pass1:
  "rewriteTree rt stable_tree b t s = stable_tree1"
  by (simp add: rewriteTree_def removeElements_def stable_tree_def stable_tree1_def
      rewriteSelectors_Nil rewriteSelectors_Element rewriteSelectors_Text targets_eq stable_attrs
      headMetaRobots_def allNodes_def)

lemma stable_pass2:
  "rewriteTree rt stable_tree1 b t s = stable_tree1"
  by (simp add: rewriteTree_def removeElements_def stable_tree1_def
      rewriteSelectors_Nil rewriteSelectors_Element rewriteSelectors_Text targets_eq stable_attrs
      headMetaRobots_def allNodes_def robotsMeta_def)

lemma example_loads:
  "ch_load example_cheerio (example_html example_tree) = example_tree"
  "ch_load example_cheerio (example_html example_tree1) = example_tree1"
  "ch_load example_cheerio (example_html stable_tree) = stable_tree"
  "ch_load example_cheerio (example_html stable_tree1) = stable_tree1"
  by (simp_all add: example_cheerio_def example_trees_def example_html_def example_tree_def
      example_tree1_def example_tree2_def stable_tree_def stable_tree1_def robotsMeta_def
      voidTags_def)

lemma example_pages_differ: "example_html example_tree2 \<noteq> example_html example_tree1"
  by (simp add: example_html_def example_tree1_def example_tree2_def robotsMeta_def voidTags_def)

lemma example_serializer: "ch_html example_cheerio = example_html"
  by (simp add: example_cheerio_def)

theorem rewriteHtmlDocument_second_pass_changes_mirrored_href:
  "url_origin example_runtime example_url = url_origin example_runtime example_target
   \<and> rewriteHtmlDocument example_cheerio example_runtime (example_html example_tree)
         example_url example_target ''example-com'' = example_html example_tree1
   \<and> rewriteHtmlDocument example_cheerio example_runtime (example_html example_tree1)
         example_url example_target ''example-com'' = example_html example_tree2
   \<and> example_html example_tree2 \<noteq> example_html example_tree1"
  by (simp add: rewriteHtmlDocument_def example_origins example_loads example_serializer
      example_pass1 example_pass2 example_pages_differ)

lemma stable_elements:
  "\<forall>e\<in>set (elementsOf (removeElements ''base'' stable_tree)). \<forall>a\<in>set (targets (fst e)).
      rewriteAttr rt b t s a (rewriteAttr rt b t s a (snd e)) = rewriteAttr rt b t s a (snd e)"
  by (simp add: elementsOf_def removeElements_def stable_tree_def targets_eq stable_attrs)

theorem rewriteHtmlDocument_second_pass_witness:
  "rewriteHtmlDocument example_cheerio example_runtime (example_html stable_tree)
       example_url example_target ''example-com'' = example_html stable_tree1
   \<and> rewriteHtmlDocument example_cheerio example_runtime (example_html stable_tree1)
       example_url example_target ''example-com'' = example_html stable_tree1
   \<and> rewriteAttr example_runtime example_url example_target ''example-com'' ''href''
         [(''href'', CHR 0xC2 # CHR 0xA0 # ''#end'')]
       = [(''href'', CHR 0xC2 # CHR 0xA0 # ''#end'')]
   \<and> rewriteAttr example_runtime example_url example_target ''example-com'' ''href''
         [(''href'', ''/x'')]
       = [(''href'', ''/m/example-com/x'')]
   \<and> rewriteAttr example_runtime example_url example_target ''example-com'' ''href''
         (rewriteAttr example_runtime example_url example_target ''example-com'' ''href''
            [(''href'', ''/x'')])
       = [(''href'', ''/m/example-com/m/example-com/x'')]"
proof -
  let ?r = "example_url\<lparr>pathname := ''/x'', search := []\<rparr>"
  let ?r2 = "example_url\<lparr>pathname := ''/m/example-com/x'', search := []\<rparr>"
  note kept = rewriteHtmlDocument_second_pass
    [where ch = example_cheerio and rt = example_runtime and html = "example_html stable_tree"
       and b = example_url and t = example_target and s = "''example-com''"
       and a = "''href''" and attrs = "[(''href'', CHR 0xC2 # CHR 0xA0 # ''#end'')]"
       and v = "CHR 0xC2 # CHR 0xA0 # ''#end''" and r = "?r" and ?r2.0 = "?r2"]
  note again = rewriteHtmlDocument_second_pass
    [where ch = example_cheerio and rt = example_runtime and html = "example_html stable_tree"
       and b = example_url and t = example_target and s = "''example-com''"
       and a = "''href''" and attrs = "[(''href'', ''/x'')]"
       and v = "''/x''" and r = "?r" and ?r2.0 = "?r2"]
  have first: "rewriteHtmlDocument example_cheerio example_runtime (example_html stable_tree)
       example_url example_target ''example-com'' = example_html stable_tree1"
    by (simp add: rewriteHtmlDocument_def example_loads example_serializer stable_pass1)
  have second: "rewriteHtmlDocument example_cheerio example_runtime (example_html stable_tree1)
       example_url example_target ''example-com'' = example_html stable_tree1"
    by (simp add: rewriteHtmlDocument_def example_loads example_serializer stable_pass2)
  have l1: "ch_load example_cheerio
          (rewriteHtmlDocument example_cheerio example_runtime (example_html stable_tree)
             example_url example_target ''example-com'')
        = rewriteTree example_runtime (ch_load example_cheerio (example_html stable_tree))
            example_url example_target ''example-com''"
    by (simp only: first example_loads stable_pass1)
  have l2: "ch_load example_cheerio
          (rewriteHtmlDocument example_cheerio example_runtime
             (rewriteHtmlDocument example_cheerio example_runtime (example_html stable_tree)
                example_url example_target ''example-com'')
             example_url example_target ''example-com'')
        = rewriteTree example_runtime
            (ch_load example_cheerio
               (rewriteHtmlDocument example_cheerio example_runtime (example_html stable_tree)
                  example_url example_target ''example-com''))
            example_url example_target ''example-com''"
    by (simp only: first second example_loads stable_pass2)
  have st: "\<forall>e\<in>set (elementsOf (removeElements ''base''
                (ch_load example_cheerio (example_html stable_tree)))).
      \<forall>a\<in>set (targets (fst e)).
        rewriteAttr example_runtime example_url example_target ''example-com'' a
          (rewriteAttr example_runtime example_url example_target ''example-com'' a (snd e))
        = rewriteAttr example_runtime example_url example_target ''example-com'' a (snd e)"
    unfolding example_loads by (rule stable_elements)
  from kept l1 l2 st have fixed: "rewriteHtmlDocument example_cheerio example_runtime
       (rewriteHtmlDocument example_cheerio example_runtime (example_html stable_tree)
          example_url example_target ''example-com'')
       example_url example_target ''example-com''
     = rewriteHtmlDocument example_cheerio example_runtime (example_html stable_tree)
          example_url example_target ''example-com''"
    by blast
  have "startsWith (trimWs (CHR 0xC2 # CHR 0xA0 # ''#end'')) ''#''"
    by (simp add: example_trims startsWith_def)
  with kept have k: "rewriteAttr example_runtime example_url example_target ''example-com'' ''href''
         [(''href'', CHR 0xC2 # CHR 0xA0 # ''#end'')]
       = [(''href'', CHR 0xC2 # CHR 0xA0 # ''#end'')]"
    by simp
  have h: "''href'' \<noteq> ''srcset'' \<and> map_of [(''href'', ''/x'')] ''href'' = Some ''/x'' \<and> trimWs ''/x'' \<noteq> [] \<and>
        \<not> (startsWith (trimWs ''/x'') ''#'' \<or> startsWith (trimWs ''/x'') ''data:'' \<or>
           startsWith (trimWs ''/x'') ''mailto:'' \<or> startsWith (trimWs ''/x'') ''tel:'' \<or>
           startsWith (trimWs ''/x'') ''javascript:'') \<and>
        rt_resolveUrl example_runtime (trimWs ''/x'') example_url = Some ?r \<and>
        url_origin example_runtime ?r = url_origin example_runtime example_target \<and>
        rt_resolveUrl example_runtime (trimWs (buildMirrorPath ''example-com'' ?r)) example_url = Some ?r2 \<and>
        url_origin example_runtime ?r2 = url_origin example_runtime example_target \<and>
        pathname ?r2 @ search ?r2 = buildMirrorPath ''example-com'' ?r"
    by (simp add: example_trims example_resolve example_origins example_paths_built startsWith_def)
  from again h have
    "rewriteAttr example_runtime example_url example_target ''example-com'' ''href'' [(''href'', ''/x'')]
       = AList.update ''href'' (buildMirrorPath ''example-com'' ?r) [(''href'', ''/x'')]
     \<and> rewriteAttr example_runtime example_url example_target ''example-com'' ''href''
         (rewriteAttr example_runtime example_url example_target ''example-com'' ''href''
            [(''href'', ''/x'')])
       = AList.update ''href'' (buildMirrorPath ''example-com'' ?r2) [(''href'', ''/x'')]"
    by blast
  note raw = this
  have a: "rewriteAttr example_runtime example_url example_target ''example-com'' ''href''
         [(''href'', ''/x'')] = [(''href'', ''/m/example-com/x'')]"
    using conjunct1 [OF raw] by (simp add: example_paths_built)
  have b: "rewriteAttr example_runtime example_url example_target ''example-com'' ''href''
         (rewriteAttr example_runtime example_url example_target ''example-com'' ''href''
            [(''href'', ''/x'')])
       = [(''href'', ''/m/example-com/m/example-com/x'')]"
    using conjunct2 [OF raw] by (simp add: example_paths_built)
  from fixed first have "rewriteHtmlDocument example_cheerio example_runtime (example_html stable_tree1)
       example_url example_target ''example-com'' = example_html stable_tree1" by simp
  with first k a b show ?thesis by (intro conjI)
qed

end
